theory Spec2Isabelle
  imports Main "HOL-Library.AList" "HOL-Library.Word"
begin

section \<open>The contact dialog of qTox: data model\<close>

text \<open>
  The development embeds \<^verbatim>\<open>src/widget/contentdialog.cpp\<close>: the contact bookkeeping of
  \<^verbatim>\<open>ContentDialog\<close> (the two hashes keyed by contact id, the three widget layouts, the
  list \<^verbatim>\<open>layouts\<close> that orders them, the active widget) and the operations on it.
  Window chrome (geometry, splitter, style sheets, title and icon, translation) is not
  part of the model.
\<close>

text \<open>A contact id is the raw bytes of a friend public key or of a group id.\<close>

type_synonym ContactId = string

text \<open>An opaque handle of a chat form.\<close>

type_synonym GenericChatForm = nat

text \<open>
  A chatroom widget is a heap object: \<open>addr\<close> is its address, \<open>getContact\<close> the
  persistent id of the contact it shows. The two constructors are the two subclasses, so
  \<^verbatim>\<open>qobject_cast<FriendWidget*>\<close> is a case distinction.
\<close>

datatype GenericChatroomWidget =
    FriendWidget (addr: nat) (getContact: ContactId)
  | GroupWidget (addr: nat) (getContact: ContactId)

text \<open>
  Modelled from the spec: the declaration of \<^verbatim>\<open>Status::Status\<close> is not among the
  sources; the spec gives a friend entry the status enum \<open>{Online, Offline}\<close>.
\<close>

datatype Status = Online | Offline

text \<open>
  The three layout objects a \<^verbatim>\<open>QLayout*\<close> of this file can point to:
  \<^verbatim>\<open>friendLayout->getLayoutOnline()\<close>, \<^verbatim>\<open>groupLayout.getLayout()\<close> and
  \<^verbatim>\<open>friendLayout->getLayoutOffline()\<close>.
\<close>

datatype LayoutRef = LayoutOnline | LayoutGroups | LayoutOffline

text \<open>
  What the source can run into: a null pointer that is dereferenced, and an
  \<^verbatim>\<open>assert\<close> that fails.
\<close>

datatype error = NullPointer | AssertionFailed

text \<open>
  A \<^verbatim>\<open>QHash\<close> is kept as an association list with one entry per key; only lookups,
  \<^verbatim>\<open>contains\<close> and \<^verbatim>\<open>isEmpty\<close> observe it, so the order of the entries carries no
  meaning.
\<close>

type_synonym ('k, 'v) QHash = "('k \<times> 'v) list"

definition hashValue :: "('k, 'v) QHash \<Rightarrow> 'k \<Rightarrow> 'v option" where
  "hashValue h k = map_of h k"

definition hashContains :: "('k, 'v) QHash \<Rightarrow> 'k \<Rightarrow> bool" where
  "hashContains h k = (map_of h k \<noteq> None)"

definition hashInsert :: "'k \<Rightarrow> 'v \<Rightarrow> ('k, 'v) QHash \<Rightarrow> ('k, 'v) QHash" where
  "hashInsert k v h = AList.update k v h"

definition hashRemove :: "'k \<Rightarrow> ('k, 'v) QHash \<Rightarrow> ('k, 'v) QHash" where
  "hashRemove k h = AList.delete k h"

definition hashIsEmpty :: "('k, 'v) QHash \<Rightarrow> bool" where
  "hashIsEmpty h = (h = [])"

definition hashKeys :: "('k, 'v) QHash \<Rightarrow> 'k set" where
  "hashKeys h = fst ` set h"

text \<open>
  The state of a dialog. \<open>groupchatPosition\<close> is the value that
  \<^verbatim>\<open>Settings::getInstance().getGroupchatPosition()\<close> returns; \<open>contentLayout\<close> is the form
  shown in the content pane, if any; \<open>closeCalled\<close> and \<open>deleteLaterCalled\<close> record that
  the dialog called \<^verbatim>\<open>close()\<close> and \<^verbatim>\<open>deleteLater()\<close> on itself; \<open>nextAddr\<close> is the
  address the next \<^verbatim>\<open>new\<close> returns. The entries of \<open>contactWidgets\<close> are widgets, not
  nullable pointers: of the functions modelled only \<^verbatim>\<open>addFriend\<close> and \<^verbatim>\<open>addGroup\<close>
  store an entry that stays, and they store the widget they have just allocated.
\<close>

record ContentDialog =
  contactWidgets :: "(ContactId, GenericChatroomWidget) QHash"
  contactChatForms :: "(ContactId, GenericChatForm) QHash"
  layoutOnline :: "GenericChatroomWidget list"
  layoutOffline :: "GenericChatroomWidget list"
  groupLayout :: "GenericChatroomWidget list"
  layouts :: "LayoutRef list"
  activeChatroomWidget :: "GenericChatroomWidget option"
  contentLayout :: "GenericChatForm option"
  groupchatPosition :: bool
  closeCalled :: bool
  deleteLaterCalled :: bool
  nextAddr :: nat

text \<open>
  The constructor: no contact, no active widget, and \<^verbatim>\<open>layouts\<close> in the order online,
  groups, offline, with the first two swapped when the setting puts groups on top.
\<close>

definition newContentDialog :: "bool \<Rightarrow> ContentDialog" where
  "newContentDialog groupsOnTop =
     \<lparr> contactWidgets = [], contactChatForms = [],
       layoutOnline = [], layoutOffline = [], groupLayout = [],
       layouts = (if groupsOnTop then [LayoutGroups, LayoutOnline, LayoutOffline]
                  else [LayoutOnline, LayoutGroups, LayoutOffline]),
       activeChatroomWidget = None, contentLayout = None,
       groupchatPosition = groupsOnTop,
       closeCalled = False, deleteLaterCalled = False, nextAddr = 0 \<rparr>"

section \<open>The layouts\<close>

text \<open>
  Modelled from the spec: \<^verbatim>\<open>FriendListLayout\<close> and the sorted layout behind
  \<^verbatim>\<open>groupLayout\<close> are not among the sources. The spec makes each of the three groupings
  an ordered sequence of entries, so a layout is the list of its widgets, \<^verbatim>\<open>count()\<close>
  its length, \<^verbatim>\<open>isEmpty()\<close> the test for the empty list and \<^verbatim>\<open>itemAt(i)->widget()\<close>
  the \<open>i\<close>-th element.
\<close>

definition layoutItems :: "ContentDialog \<Rightarrow> LayoutRef \<Rightarrow> GenericChatroomWidget list" where
  "layoutItems s l =
     (case l of LayoutOnline \<Rightarrow> layoutOnline s
              | LayoutGroups \<Rightarrow> groupLayout s
              | LayoutOffline \<Rightarrow> layoutOffline s)"

definition layoutCount :: "ContentDialog \<Rightarrow> LayoutRef \<Rightarrow> int" where
  "layoutCount s l = int (length (layoutItems s l))"

definition layoutIsEmpty :: "ContentDialog \<Rightarrow> LayoutRef \<Rightarrow> bool" where
  "layoutIsEmpty s l = (layoutItems s l = [])"

text \<open>\<^verbatim>\<open>QList::indexOf\<close>: the index of the first occurrence, \<open>-1\<close> when there is none.\<close>

fun indexOf :: "'a \<Rightarrow> 'a list \<Rightarrow> int" where
  "indexOf a [] = - 1"
| "indexOf a (x # xs) =
     (if x = a then 0 else (let i = indexOf a xs in if i = - 1 then - 1 else i + 1))"

text \<open>
  Modelled from the spec: \<^verbatim>\<open>indexOfSortedWidget\<close> is not among the sources. It is the
  index of the widget in the grouping (the doc comment of \<^verbatim>\<open>getCurrentLayout\<close> calls it
  the index of the current widget in the current layout), \<open>-1\<close> when the widget is not
  there; a null pointer is in no layout.
\<close>

definition indexOfSortedWidget ::
  "GenericChatroomWidget option \<Rightarrow> GenericChatroomWidget list \<Rightarrow> int" where
  "indexOfSortedWidget widget xs = (case widget of None \<Rightarrow> - 1 | Some w \<Rightarrow> indexOf w xs)"

text \<open>
  Modelled from the spec: \<^verbatim>\<open>addSortedWidget\<close> is not among the sources, and the spec
  does not say where in its grouping a new entry goes. The place is the parameter
  \<open>pos\<close>; as with \<^verbatim>\<open>QBoxLayout::insertWidget\<close>, a place past the end appends.
\<close>

definition addSortedWidget ::
  "nat \<Rightarrow> GenericChatroomWidget \<Rightarrow> GenericChatroomWidget list \<Rightarrow> GenericChatroomWidget list" where
  "addSortedWidget pos w xs = take pos xs @ w # drop pos xs"

text \<open>
  Modelled from the spec: \<^verbatim>\<open>removeSortedWidget\<close> is not among the sources; it takes
  the widget out of the grouping and keeps the order of the others.
\<close>

definition removeSortedWidget ::
  "GenericChatroomWidget \<Rightarrow> GenericChatroomWidget list \<Rightarrow> GenericChatroomWidget list" where
  "removeSortedWidget w xs = remove1 w xs"

text \<open>
  Modelled from the spec: \<^verbatim>\<open>FriendListLayout::indexOfFriendWidget\<close> is not among the
  sources; the flag chooses the online or the offline grouping.
\<close>

definition indexOfFriendWidget ::
  "ContentDialog \<Rightarrow> GenericChatroomWidget option \<Rightarrow> bool \<Rightarrow> int" where
  "indexOfFriendWidget s widget online =
     (if online then indexOfSortedWidget widget (layoutOnline s)
      else indexOfSortedWidget widget (layoutOffline s))"

text \<open>
  Modelled from the spec: \<^verbatim>\<open>FriendListLayout::addFriendWidget\<close> is not among the
  sources. The spec puts a friend entry into the online or the offline grouping by its
  status and has a status change move the entry between the two groupings, the others
  keeping their order: the widget leaves both groupings and enters the one of the status.
  For a null widget the spec's error handling section makes the status update of an
  unknown contact a no-op, so the layouts stay as they are.
\<close>

definition friendLayout_addFriendWidget ::
  "ContentDialog \<Rightarrow> GenericChatroomWidget option \<Rightarrow> Status \<Rightarrow> nat \<Rightarrow> ContentDialog" where
  "friendLayout_addFriendWidget s widget status pos =
     (case widget of
        None \<Rightarrow> s
      | Some w \<Rightarrow>
          (let off = removeSortedWidget w (layoutOffline s);
               on = removeSortedWidget w (layoutOnline s)
           in if status = Offline
              then s\<lparr>layoutOffline := addSortedWidget pos w off, layoutOnline := on\<rparr>
              else s\<lparr>layoutOffline := off, layoutOnline := addSortedWidget pos w on\<rparr>))"

text \<open>
  Modelled from the spec: \<^verbatim>\<open>FriendListLayout::removeFriendWidget\<close> is not among the
  sources; it takes the widget out of the grouping of the given status.
\<close>

definition friendLayout_removeFriendWidget ::
  "ContentDialog \<Rightarrow> GenericChatroomWidget \<Rightarrow> Status \<Rightarrow> ContentDialog" where
  "friendLayout_removeFriendWidget s w status =
     (if status = Offline then s\<lparr>layoutOffline := removeSortedWidget w (layoutOffline s)\<rparr>
      else s\<lparr>layoutOnline := removeSortedWidget w (layoutOnline s)\<rparr>)"

text \<open>
  Modelled from the spec: \<^verbatim>\<open>FriendListLayout::friendTotalCount\<close> is not among the
  sources; it counts the friend entries of both groupings.
\<close>

definition friendTotalCount :: "ContentDialog \<Rightarrow> int" where
  "friendTotalCount s = layoutCount s LayoutOnline + layoutCount s LayoutOffline"

definition chatroomCount :: "ContentDialog \<Rightarrow> int" where
  "chatroomCount s = friendTotalCount s + layoutCount s LayoutGroups"

section \<open>Activation\<close>

text \<open>
  \<^verbatim>\<open>activate\<close>: nothing happens for the widget that is active already. Otherwise the
  content pane is cleared, the widget becomes the active one and the chat form of its
  contact is shown. \<^verbatim>\<open>contactChatForms[...]\<close> on a missing key yields a null form,
  whose \<^verbatim>\<open>show\<close> dereferences it.
\<close>

definition activate :: "ContentDialog \<Rightarrow> GenericChatroomWidget \<Rightarrow> error + ContentDialog" where
  "activate s widget =
     (if activeChatroomWidget s = Some widget then Inr s
      else (case hashValue (contactChatForms s) (getContact widget) of
              None \<Rightarrow> Inl NullPointer
            | Some form \<Rightarrow>
                Inr (s\<lparr>activeChatroomWidget := Some widget, contentLayout := Some form\<rparr>)))"

section \<open>Cycling through the contacts\<close>

text \<open>
  \<^verbatim>\<open>getCurrentLayout\<close>: the layout that holds the active widget (the out parameter) and
  the index of the widget in it; online is asked first, then offline, then the groups.
\<close>

definition getCurrentLayout :: "ContentDialog \<Rightarrow> LayoutRef option \<times> int" where
  "getCurrentLayout s =
     (let index = indexOfFriendWidget s (activeChatroomWidget s) True in
      if index \<noteq> - 1 then (Some LayoutOnline, index)
      else
        (let index = indexOfFriendWidget s (activeChatroomWidget s) False in
         if index \<noteq> - 1 then (Some LayoutOffline, index)
         else
           (let index = indexOfSortedWidget (activeChatroomWidget s) (groupLayout s) in
            if index \<noteq> - 1 then (Some LayoutGroups, index)
            else (None, - 1))))"

text \<open>
  \<^verbatim>\<open>nextLayout\<close>: the neighbour of a layout in \<^verbatim>\<open>layouts\<close>, circularly. The sum
  \<^verbatim>\<open>next + size\<close> is computed in \<^verbatim>\<open>size_t\<close>, here 64 bits wide: for \<open>next = -1\<close> it
  wraps around to \<open>size - 1\<close>.
\<close>

definition nextLayout :: "ContentDialog \<Rightarrow> LayoutRef \<Rightarrow> bool \<Rightarrow> LayoutRef option" where
  "nextLayout s layout forward =
     (let index = indexOf layout (layouts s) in
      if index = - 1 then None
      else
        (let next = (if forward then index + 1 else index - 1);
             size = (word_of_nat (length (layouts s)) :: 64 word);
             next = unat ((word_of_int next + size) mod size)
         in Some (layouts s ! next)))"

text \<open>
  The block of \<^verbatim>\<open>cycleContacts\<close> that may turn the direction round: only without
  \<^verbatim>\<open>inverse\<close> and only at the last index of the current layout.
\<close>

definition nextIsEmpty :: "ContentDialog \<Rightarrow> LayoutRef \<Rightarrow> bool" where
  "nextIsEmpty s currentLayout =
     (let groupsOnTop = groupchatPosition s;
          offlineEmpty = layoutIsEmpty s LayoutOffline;
          onlineEmpty = layoutIsEmpty s LayoutOnline;
          groupsEmpty = layoutIsEmpty s LayoutGroups;
          isCurOffline = (currentLayout = LayoutOffline);
          isCurOnline = (currentLayout = LayoutOnline);
          isCurGroup = (currentLayout = LayoutGroups)
      in (isCurOnline \<and> offlineEmpty \<and> (groupsEmpty \<or> groupsOnTop))
         \<or> (isCurGroup \<and> offlineEmpty \<and> (onlineEmpty \<or> \<not> groupsOnTop))
         \<or> isCurOffline)"

definition cycleDirection :: "ContentDialog \<Rightarrow> LayoutRef \<Rightarrow> int \<Rightarrow> bool \<Rightarrow> bool \<Rightarrow> bool" where
  "cycleDirection s currentLayout index forward inverse' =
     (if \<not> inverse' \<and> index = layoutCount s currentLayout - 1
      then (if nextIsEmpty s currentLayout then \<not> forward else forward)
      else forward)"

text \<open>
  The \<^verbatim>\<open>while\<close> loop of \<^verbatim>\<open>cycleContacts\<close>. It runs as long as the index is outside the
  current layout, and nothing in it bounds the number of rounds, so it is a partial
  function: \<open>None\<close> is the loop that never ends. \<^verbatim>\<open>nextLayout\<close> may return a null
  pointer, which the loop dereferences at once.
\<close>

partial_function (option) cycleLoop ::
  "ContentDialog \<Rightarrow> bool \<Rightarrow> LayoutRef \<Rightarrow> int \<Rightarrow> (error + LayoutRef \<times> int) option" where
  "cycleLoop s forward currentLayout index =
     (if index < 0 \<or> index \<ge> layoutCount s currentLayout then
        (let oldCount = layoutCount s currentLayout in
         case nextLayout s currentLayout forward of
           None \<Rightarrow> Some (Inl NullPointer)
         | Some nxt \<Rightarrow>
             (let newCount = layoutCount s nxt in
              cycleLoop s forward nxt
                (if index < 0 then newCount - 1
                 else if index \<ge> oldCount then 0
                 else index)))
      else Some (Inr (currentLayout, index)))"

declare cycleLoop.simps [code]

text \<open>
  \<^verbatim>\<open>cycleContacts\<close>: without an active widget in one of the layouts nothing happens;
  otherwise the widget the loop stops at is clicked, unless it is the active one. The
  click reaches \<^verbatim>\<open>activate\<close> through the connection made when the widget was added.
\<close>

definition cycleContacts ::
  "ContentDialog \<Rightarrow> bool \<Rightarrow> bool \<Rightarrow> (error + ContentDialog) option" where
  "cycleContacts s forward inverse' =
     (case getCurrentLayout s of
        (None, index) \<Rightarrow> Some (Inr s)
      | (Some currentLayout, index) \<Rightarrow>
          if index = - 1 then Some (Inr s)
          else
            (let forward = cycleDirection s currentLayout index forward inverse';
                 index = index + (if forward then 1 else - 1)
             in case cycleLoop s forward currentLayout index of
                  None \<Rightarrow> None
                | Some (Inl e) \<Rightarrow> Some (Inl e)
                | Some (Inr (layout, i)) \<Rightarrow>
                    (let chatWidget = layoutItems s layout ! nat i in
                     if Some chatWidget \<noteq> activeChatroomWidget s
                     then Some (activate s chatWidget)
                     else Some (Inr s))))"

text \<open>
  Sequencing of steps that may crash or fail to return: the next step runs on the state
  the previous one returned.
\<close>

definition andThen ::
  "(error + 'a) option \<Rightarrow> ('a \<Rightarrow> (error + 'b) option) \<Rightarrow> (error + 'b) option" where
  "andThen r f = (case r of None \<Rightarrow> None | Some (Inl e) \<Rightarrow> Some (Inl e) | Some (Inr x) \<Rightarrow> f x)"

text \<open>\<^verbatim>\<open>cycleContacts\<close> called \<open>n\<close> times in a row, with the same flags.\<close>

fun cycleTimes :: "nat \<Rightarrow> ContentDialog \<Rightarrow> bool \<Rightarrow> bool \<Rightarrow> (error + ContentDialog) option" where
  "cycleTimes 0 s forward inverse' = Some (Inr s)"
| "cycleTimes (Suc n) s forward inverse' =
     andThen (cycleContacts s forward inverse') (\<lambda>s'. cycleTimes n s' forward inverse')"

section \<open>Adding and removing contacts\<close>

text \<open>
  \<^verbatim>\<open>addFriend\<close>: a new friend widget is allocated, stored under the public key of the
  friend, put into the friend layout by the status of the friend, the form is stored
  under the same key, and the widget is clicked, which activates it. The public key,
  the status, the form and the place in the layout are what the caller's chatroom
  determines. The model returns the new state; the pointer the source returns is the
  widget \<open>FriendWidget (nextAddr s) friendPk\<close>.
\<close>

definition addFriend ::
  "ContentDialog \<Rightarrow> ContactId \<Rightarrow> Status \<Rightarrow> GenericChatForm \<Rightarrow> nat \<Rightarrow> error + ContentDialog" where
  "addFriend s friendPk status form pos =
     (let friendWidget = FriendWidget (nextAddr s) friendPk;
          s = s\<lparr>nextAddr := Suc (nextAddr s)\<rparr>;
          s = s\<lparr>contactWidgets := hashInsert friendPk friendWidget (contactWidgets s)\<rparr>;
          s = friendLayout_addFriendWidget s (Some friendWidget) status pos;
          s = s\<lparr>contactChatForms := hashInsert friendPk form (contactChatForms s)\<rparr>
      in activate s friendWidget)"

definition addGroup ::
  "ContentDialog \<Rightarrow> ContactId \<Rightarrow> GenericChatForm \<Rightarrow> nat \<Rightarrow> error + ContentDialog" where
  "addGroup s groupId form pos =
     (let groupWidget = GroupWidget (nextAddr s) groupId;
          s = s\<lparr>nextAddr := Suc (nextAddr s)\<rparr>;
          s = s\<lparr>contactWidgets := hashInsert groupId groupWidget (contactWidgets s)\<rparr>;
          s = s\<lparr>groupLayout := addSortedWidget pos groupWidget (groupLayout s)\<rparr>;
          s = s\<lparr>contactChatForms := hashInsert groupId form (contactChatForms s)\<rparr>
      in activate s groupWidget)"

definition closeIfEmpty :: "ContentDialog \<Rightarrow> ContentDialog" where
  "closeIfEmpty s = (if hashIsEmpty (contactWidgets s) then s\<lparr>closeCalled := True\<rparr> else s)"

text \<open>The two casts: a null pointer and a widget of the other subclass give null.\<close>

definition castFriendWidget :: "GenericChatroomWidget option \<Rightarrow> GenericChatroomWidget option" where
  "castFriendWidget w =
     (case w of Some (FriendWidget a k) \<Rightarrow> Some (FriendWidget a k) | _ \<Rightarrow> None)"

definition castGroupWidget :: "GenericChatroomWidget option \<Rightarrow> GenericChatroomWidget option" where
  "castGroupWidget w =
     (case w of Some (GroupWidget a k) \<Rightarrow> Some (GroupWidget a k) | _ \<Rightarrow> None)"

text \<open>
  The part \<^verbatim>\<open>removeFriend\<close> and \<^verbatim>\<open>removeGroup\<close> share word for word, after the widget
  has left its layout: with no chatroom left the content pane is cleared, the active
  widget reset and the dialog scheduled for deletion; then the two hash entries go and
  the dialog closes if the hash is empty.
\<close>

definition finishRemove :: "ContentDialog \<Rightarrow> ContactId \<Rightarrow> ContentDialog" where
  "finishRemove s contactId =
     (let s = (if chatroomCount s = 0
               then s\<lparr>contentLayout := None, activeChatroomWidget := None,
                      deleteLaterCalled := True\<rparr>
               else s);
          s = s\<lparr>contactWidgets := hashRemove contactId (contactWidgets s)\<rparr>;
          s = s\<lparr>contactChatForms := hashRemove contactId (contactChatForms s)\<rparr>
      in closeIfEmpty s)"

text \<open>
  \<^verbatim>\<open>removeFriend\<close>: \<^verbatim>\<open>contactWidgets[friendPk]\<close> cast to a friend widget is null for
  an unknown key and for the key of a group, and \<^verbatim>\<open>chatroomWidget->getFriend()\<close>
  dereferences it. If the widget is the active one, \<^verbatim>\<open>cycleContacts\<close> runs first, while
  the widget is still in its layout.
\<close>

definition removeFriend :: "ContentDialog \<Rightarrow> ContactId \<Rightarrow> (error + ContentDialog) option" where
  "removeFriend s friendPk =
     (case castFriendWidget (hashValue (contactWidgets s) friendPk) of
        None \<Rightarrow> Some (Inl NullPointer)
      | Some chatroomWidget \<Rightarrow>
          andThen
            (if activeChatroomWidget s = Some chatroomWidget
             then cycleContacts s True False else Some (Inr s))
            (\<lambda>s.
               (let s = friendLayout_removeFriendWidget s chatroomWidget Offline;
                    s = friendLayout_removeFriendWidget s chatroomWidget Online
                in Some (Inr (finishRemove s friendPk)))))"

text \<open>
  \<^verbatim>\<open>removeGroup\<close>: here the first dereference of the cast pointer is
  \<^verbatim>\<open>chatroomWidget->deleteLater()\<close>, after the comparison with the active widget; what
  runs before it on a null pointer is lost with the crash.
\<close>

definition removeGroup :: "ContentDialog \<Rightarrow> ContactId \<Rightarrow> (error + ContentDialog) option" where
  "removeGroup s groupId =
     (case castGroupWidget (hashValue (contactWidgets s) groupId) of
        None \<Rightarrow> Some (Inl NullPointer)
      | Some chatroomWidget \<Rightarrow>
          andThen
            (if activeChatroomWidget s = Some chatroomWidget
             then cycleContacts s True False else Some (Inr s))
            (\<lambda>s.
               (let s = s\<lparr>groupLayout := removeSortedWidget chatroomWidget (groupLayout s)\<rparr>
                in Some (Inr (finishRemove s groupId)))))"

section \<open>Focus, status updates, drops\<close>

definition focusCommon ::
  "ContentDialog \<Rightarrow> ContactId \<Rightarrow> (ContactId, GenericChatroomWidget) QHash \<Rightarrow> error + ContentDialog" where
  "focusCommon s contactId list =
     (case hashValue list contactId of
        None \<Rightarrow> Inr s
      | Some widget \<Rightarrow> activate s widget)"

definition focusContact :: "ContentDialog \<Rightarrow> ContactId \<Rightarrow> error + ContentDialog" where
  "focusContact s contactId = focusCommon s contactId (contactWidgets s)"

definition addFriendWidget ::
  "ContentDialog \<Rightarrow> GenericChatroomWidget option \<Rightarrow> Status \<Rightarrow> nat \<Rightarrow> ContentDialog" where
  "addFriendWidget s widget status pos = friendLayout_addFriendWidget s widget status pos"

text \<open>
  \<^verbatim>\<open>updateFriendStatus\<close>: \<^verbatim>\<open>contactWidgets.value(friendPk)\<close> is null for an unknown
  key; the cast pointer goes to the friend layout unchecked.
\<close>

definition updateFriendStatus ::
  "ContentDialog \<Rightarrow> ContactId \<Rightarrow> Status \<Rightarrow> nat \<Rightarrow> ContentDialog" where
  "updateFriendStatus s friendPk status pos =
     (let widget = castFriendWidget (hashValue (contactWidgets s) friendPk)
      in addFriendWidget s widget status pos)"

definition hasContact :: "ContentDialog \<Rightarrow> ContactId \<Rightarrow> bool" where
  "hasContact s contactId = hashContains (contactWidgets s) contactId"

text \<open>
  A drag event: the kind of object it comes from and its MIME data. The lookups
  \<^verbatim>\<open>FriendList::findFriend\<close> and \<^verbatim>\<open>GroupList::findGroup\<close> are not among the sources and
  are parameters; each gives the id of the contact it finds, none for a null pointer.
  \<^verbatim>\<open>dragEnterEvent\<close> returns whether the proposed action was accepted; MIME data
  without the expected format fail the \<^verbatim>\<open>assert\<close>.
\<close>

datatype DragSource = FromFriendWidget | FromGroupWidget | FromOther

record QDragEnterEvent =
  source :: DragSource
  mimeData :: "(string, ContactId) QHash"

definition dragEnterEvent ::
  "(ContactId \<Rightarrow> ContactId option) \<Rightarrow> (ContactId \<Rightarrow> ContactId option) \<Rightarrow>
   ContentDialog \<Rightarrow> QDragEnterEvent \<Rightarrow> error + bool" where
  "dragEnterEvent findFriend findGroup s event =
     (case source event of
        FromFriendWidget \<Rightarrow>
          (case hashValue (mimeData event) ''toxPk'' of
             None \<Rightarrow> Inl AssertionFailed
           | Some toxPk \<Rightarrow>
               (case findFriend toxPk of
                  None \<Rightarrow> Inr False
                | Some friendId \<Rightarrow> Inr (\<not> hasContact s friendId)))
      | FromGroupWidget \<Rightarrow>
          (case hashValue (mimeData event) ''groupId'' of
             None \<Rightarrow> Inl AssertionFailed
           | Some groupId \<Rightarrow>
               (case findGroup groupId of
                  None \<Rightarrow> Inr False
                | Some contact \<Rightarrow> Inr (\<not> hasContact s groupId)))
      | FromOther \<Rightarrow> Inr False)"

section \<open>Sequences of operations\<close>

text \<open>
  The four operations that change the set of contacts, with the arguments the model
  gives them, and a run of a list of them: a crash or a loop that does not end stops
  the run.
\<close>

datatype Operation =
    AddFriend ContactId Status GenericChatForm nat
  | AddGroup ContactId GenericChatForm nat
  | RemoveFriend ContactId
  | RemoveGroup ContactId

definition applyOperation :: "ContentDialog \<Rightarrow> Operation \<Rightarrow> (error + ContentDialog) option" where
  "applyOperation s operation =
     (case operation of
        AddFriend k status form pos \<Rightarrow> Some (addFriend s k status form pos)
      | AddGroup k form pos \<Rightarrow> Some (addGroup s k form pos)
      | RemoveFriend k \<Rightarrow> removeFriend s k
      | RemoveGroup k \<Rightarrow> removeGroup s k)"

fun runOperations :: "ContentDialog \<Rightarrow> Operation list \<Rightarrow> (error + ContentDialog) option" where
  "runOperations s [] = Some (Inr s)"
| "runOperations s (operation # rest) =
     andThen (applyOperation s operation) (\<lambda>s'. runOperations s' rest)"

section \<open>Notions of the specification\<close>

text \<open>
  The specification speaks of the set of managed contact ids, of the adds and the
  removes of a sequence, and of the three groupings as one ring. The definitions of
  this section follow its words; the theorems compare them with the code above.
\<close>

text \<open>The ids added and the ids removed somewhere in a sequence.\<close>

fun addedIds :: "Operation list \<Rightarrow> ContactId set" where
  "addedIds [] = {}"
| "addedIds (AddFriend k status form pos # rest) = insert k (addedIds rest)"
| "addedIds (AddGroup k form pos # rest) = insert k (addedIds rest)"
| "addedIds (RemoveFriend k # rest) = addedIds rest"
| "addedIds (RemoveGroup k # rest) = addedIds rest"

fun removedIds :: "Operation list \<Rightarrow> ContactId set" where
  "removedIds [] = {}"
| "removedIds (AddFriend k status form pos # rest) = removedIds rest"
| "removedIds (AddGroup k form pos # rest) = removedIds rest"
| "removedIds (RemoveFriend k # rest) = insert k (removedIds rest)"
| "removedIds (RemoveGroup k # rest) = insert k (removedIds rest)"

text \<open>
  The set of ids a sequence leaves when it is read in order: an add puts its id in, a
  remove takes its id out.
\<close>

fun managedAfter :: "ContactId set \<Rightarrow> Operation list \<Rightarrow> ContactId set" where
  "managedAfter ids [] = ids"
| "managedAfter ids (AddFriend k status form pos # rest) = managedAfter (insert k ids) rest"
| "managedAfter ids (AddGroup k form pos # rest) = managedAfter (insert k ids) rest"
| "managedAfter ids (RemoveFriend k # rest) = managedAfter (ids - {k}) rest"
| "managedAfter ids (RemoveGroup k # rest) = managedAfter (ids - {k}) rest"

text \<open>
  A sequence a caller may issue, given the friend ids and the group ids managed at its
  start: an id is added only while it is not managed, and it is removed only while it is
  managed, by the operation of its kind.
\<close>

fun admissible :: "ContactId set \<Rightarrow> ContactId set \<Rightarrow> Operation list \<Rightarrow> bool" where
  "admissible fs gs [] = True"
| "admissible fs gs (AddFriend k status form pos # rest) =
     (k \<notin> fs \<and> k \<notin> gs \<and> admissible (insert k fs) gs rest)"
| "admissible fs gs (AddGroup k form pos # rest) =
     (k \<notin> fs \<and> k \<notin> gs \<and> admissible fs (insert k gs) rest)"
| "admissible fs gs (RemoveFriend k # rest) = (k \<in> fs \<and> admissible (fs - {k}) gs rest)"
| "admissible fs gs (RemoveGroup k # rest) = (k \<in> gs \<and> admissible fs (gs - {k}) rest)"

text \<open>
  A sequence that adds no id again after it has removed it, given the ids removed before
  its start.
\<close>

fun noReAdd :: "ContactId set \<Rightarrow> Operation list \<Rightarrow> bool" where
  "noReAdd removed [] = True"
| "noReAdd removed (AddFriend k status form pos # rest) = (k \<notin> removed \<and> noReAdd removed rest)"
| "noReAdd removed (AddGroup k form pos # rest) = (k \<notin> removed \<and> noReAdd removed rest)"
| "noReAdd removed (RemoveFriend k # rest) = noReAdd (insert k removed) rest"
| "noReAdd removed (RemoveGroup k # rest) = noReAdd (insert k removed) rest"

text \<open>The set of managed ids of the dialog a run returns, if it returns one.\<close>

definition managedIds :: "(error + ContentDialog) option \<Rightarrow> ContactId set option" where
  "managedIds r =
     (case r of
        Some (Inr s) \<Rightarrow> Some (hashKeys (contactWidgets s))
      | Some (Inl e) \<Rightarrow> None
      | None \<Rightarrow> None)"

text \<open>The ids whose entry of \<^verbatim>\<open>contactWidgets\<close> is a friend widget, and a group widget.\<close>

definition friendKeys :: "ContentDialog \<Rightarrow> ContactId set" where
  "friendKeys s = {k. castFriendWidget (hashValue (contactWidgets s) k) \<noteq> None}"

definition groupKeys :: "ContentDialog \<Rightarrow> ContactId set" where
  "groupKeys s = {k. castGroupWidget (hashValue (contactWidgets s) k) \<noteq> None}"

text \<open>
  The ring: the widgets of the three layouts in the order of \<^verbatim>\<open>layouts\<close>, the place
  where a layout starts in it, and the place of the active widget.
\<close>

definition ring :: "ContentDialog \<Rightarrow> GenericChatroomWidget list" where
  "ring s = concat (map (layoutItems s) (layouts s))"

definition layoutOffset :: "ContentDialog \<Rightarrow> LayoutRef \<Rightarrow> nat" where
  "layoutOffset s l = length (concat (map (layoutItems s) (takeWhile (\<lambda>x. x \<noteq> l) (layouts s))))"

definition ringPos :: "ContentDialog \<Rightarrow> nat" where
  "ringPos s =
     (case getCurrentLayout s of
        (Some l, i) \<Rightarrow> layoutOffset s l + nat i
      | (None, i) \<Rightarrow> 0)"

text \<open>The direction \<^verbatim>\<open>cycleContacts\<close> takes from the place of the active widget.\<close>

definition currentDirection :: "ContentDialog \<Rightarrow> bool \<Rightarrow> bool \<Rightarrow> bool" where
  "currentDirection s forward inverse' =
     (case getCurrentLayout s of
        (Some l, i) \<Rightarrow> cycleDirection s l i forward inverse'
      | (None, i) \<Rightarrow> forward)"

text \<open>
  The words of the specification for the turn of direction: moving forward out of the
  current grouping lands on an empty grouping, the next one in \<^verbatim>\<open>layouts\<close>.
\<close>

definition landsOnEmptyGrouping :: "ContentDialog \<Rightarrow> LayoutRef \<Rightarrow> bool" where
  "landsOnEmptyGrouping s currentLayout =
     (case nextLayout s currentLayout True of
        None \<Rightarrow> False
      | Some nxt \<Rightarrow> layoutIsEmpty s nxt)"

text \<open>
  The order of the groupings that the setting stands for, and the groupings that come
  after a given one in it.
\<close>

definition groupingOrder :: "bool \<Rightarrow> LayoutRef list" where
  "groupingOrder groupsOnTop =
     (if groupsOnTop then [LayoutGroups, LayoutOnline, LayoutOffline]
      else [LayoutOnline, LayoutGroups, LayoutOffline])"

definition groupingsAfter :: "bool \<Rightarrow> LayoutRef \<Rightarrow> LayoutRef list" where
  "groupingsAfter groupsOnTop l = tl (dropWhile (\<lambda>x. x \<noteq> l) (groupingOrder groupsOnTop))"

section \<open>Well-formed dialogs\<close>

text \<open>
  What the operations keep true of a dialog as long as no id is added twice:
  \<^verbatim>\<open>layouts\<close> is one of the two orders the constructor and \<^verbatim>\<open>reorderLayouts\<close> produce;
  no widget is in two places of the layouts; every widget of a layout is the entry of its
  contact in \<^verbatim>\<open>contactWidgets\<close>, has a chat form and an address that has been
  allocated; every entry of \<^verbatim>\<open>contactWidgets\<close> is in a layout, under the id of its
  contact; friend widgets are in the friend layouts and group widgets in the group
  layout; the active widget, if there is one, is in a layout.
\<close>

definition layoutsOk :: "ContentDialog \<Rightarrow> bool" where
  "layoutsOk s =
     (layouts s = [LayoutOnline, LayoutGroups, LayoutOffline]
      \<or> layouts s = [LayoutGroups, LayoutOnline, LayoutOffline])"

definition allWidgets :: "ContentDialog \<Rightarrow> GenericChatroomWidget list" where
  "allWidgets s = layoutOnline s @ groupLayout s @ layoutOffline s"

definition wellFormed :: "ContentDialog \<Rightarrow> bool" where
  "wellFormed s =
     (layoutsOk s
      \<and> distinct (allWidgets s)
      \<and> (\<forall>w \<in> set (allWidgets s).
            hashValue (contactWidgets s) (getContact w) = Some w
            \<and> hashContains (contactChatForms s) (getContact w)
            \<and> addr w < nextAddr s)
      \<and> (\<forall>(k, w) \<in> set (contactWidgets s). w \<in> set (allWidgets s) \<and> getContact w = k)
      \<and> (\<forall>w \<in> set (layoutOnline s @ layoutOffline s). castFriendWidget (Some w) = Some w)
      \<and> (\<forall>w \<in> set (groupLayout s). castGroupWidget (Some w) = Some w)
      \<and> (case activeChatroomWidget s of
            None \<Rightarrow> True
          | Some w \<Rightarrow> w \<in> set (allWidgets s)))"

section \<open>Example dialogs\<close>

text \<open>
  The scenario of the specification: an online friend \<open>A\<close>, an offline friend \<open>B\<close> and
  a group \<open>G\<close>, groups not on top, built by the operations themselves; the last step
  gives the focus to \<open>A\<close>.
\<close>

definition widgetA :: GenericChatroomWidget where
  "widgetA = FriendWidget 0 ''A''"

definition widgetB :: GenericChatroomWidget where
  "widgetB = FriendWidget 1 ''B''"

definition widgetG :: GenericChatroomWidget where
  "widgetG = GroupWidget 2 ''G''"

definition dialogABG :: ContentDialog where
  "dialogABG =
     \<lparr> contactWidgets = [(''A'', widgetA), (''B'', widgetB), (''G'', widgetG)],
       contactChatForms = [(''A'', 10), (''B'', 11), (''G'', 12)],
       layoutOnline = [widgetA], layoutOffline = [widgetB], groupLayout = [widgetG],
       layouts = [LayoutOnline, LayoutGroups, LayoutOffline],
       activeChatroomWidget = Some widgetA, contentLayout = Some 10,
       groupchatPosition = False,
       closeCalled = False, deleteLaterCalled = False, nextAddr = 3 \<rparr>"



text \<open>
  The second scenario of the specification: a dialog whose only contact is the online
  friend \<open>A\<close>, as \<^verbatim>\<open>addFriend\<close> leaves it.
\<close>

definition dialogA :: ContentDialog where
  "dialogA =
     \<lparr> contactWidgets = [(''A'', widgetA)], contactChatForms = [(''A'', 10)],
       layoutOnline = [widgetA], layoutOffline = [], groupLayout = [],
       layouts = [LayoutOnline, LayoutGroups, LayoutOffline],
       activeChatroomWidget = Some widgetA, contentLayout = Some 10,
       groupchatPosition = False,
       closeCalled = False, deleteLaterCalled = False, nextAddr = 1 \<rparr>"

text \<open>
  Two sequences of operations: in the first \<open>A\<close> is added again after it was removed,
  the second adds a friend and a group and removes the friend.
\<close>

definition readdExample :: "Operation list" where
  "readdExample =
     [AddFriend ''A'' Online 10 0, AddFriend ''B'' Online 11 0, RemoveFriend ''A'',
      AddFriend ''A'' Offline 12 0]"

definition plainExample :: "Operation list" where
  "plainExample = [AddFriend ''A'' Online 10 0, AddGroup ''G'' 12 0, RemoveFriend ''A'']"

section \<open>Properties\<close>

subsection \<open>The index of a widget\<close>

lemma indexOf_ge: "- 1 \<le> indexOf a xs"
  by (induction xs) (auto simp: Let_def)

lemma indexOf_notin: "(indexOf a xs = - 1) = (a \<notin> set xs)"
proof (induction xs)
  case Nil
  show ?case by simp
next
  case (Cons x xs)
  have "- 1 \<le> indexOf a xs" by (rule indexOf_ge)
  with Cons show ?case by (auto simp: Let_def)
qed

lemma indexOf_in:
  "a \<in> set xs \<Longrightarrow>
   0 \<le> indexOf a xs \<and> nat (indexOf a xs) < length xs \<and> xs ! nat (indexOf a xs) = a"
proof (induction xs)
  case Nil
  then show ?case by simp
next
  case (Cons x xs)
  show ?case
  proof (cases "x = a")
    case True
    then show ?thesis by simp
  next
    case False
    with Cons.prems have m: "a \<in> set xs" by simp
    from Cons.IH [OF m] have ih: "0 \<le> indexOf a xs" "nat (indexOf a xs) < length xs"
      "xs ! nat (indexOf a xs) = a" by auto
    from ih(1) have ne: "indexOf a xs \<noteq> - 1" by simp
    have n: "nat (indexOf a xs + 1) = Suc (nat (indexOf a xs))" using ih(1) by simp
    show ?thesis using False ne ih n by (simp add: Let_def)
  qed
qed

subsection \<open>Adding a contact activates it\<close>

text \<open>
  Claim C9. When \<^verbatim>\<open>addFriend\<close> or \<^verbatim>\<open>addGroup\<close> returns, the widget it has just created
  for the contact is the active widget of the dialog, and it is the entry of the contact
  in \<^verbatim>\<open>contactWidgets\<close>. This holds from every state: the add does not crash, since the
  chat form is stored before the click.
\<close>

theorem addFriend_addGroup_activates:
  "(\<exists>s'. addFriend s friendPk status form pos = Inr s'
         \<and> activeChatroomWidget s' = Some (FriendWidget (nextAddr s) friendPk)
         \<and> hashValue (contactWidgets s') friendPk = Some (FriendWidget (nextAddr s) friendPk))
   \<and> (\<exists>s'. addGroup s groupId form pos = Inr s'
         \<and> activeChatroomWidget s' = Some (GroupWidget (nextAddr s) groupId)
         \<and> hashValue (contactWidgets s') groupId = Some (GroupWidget (nextAddr s) groupId))"
  by (simp add: addFriend_def addGroup_def activate_def Let_def hashValue_def hashInsert_def
      friendLayout_addFriendWidget_def update_conv')

subsection \<open>Cycling without a current widget\<close>

text \<open>
  Claim C10. If no widget is active, or the active widget is in none of the three
  layouts, \<^verbatim>\<open>cycleContacts\<close> returns with the state of the dialog unchanged, whatever
  its two flags are and whatever contacts the dialog manages.
\<close>

theorem cycleContacts_without_current:
  assumes "activeChatroomWidget s = None
           \<or> (\<exists>w. activeChatroomWidget s = Some w \<and> w \<notin> set (layoutOnline s)
                  \<and> w \<notin> set (layoutOffline s) \<and> w \<notin> set (groupLayout s))"
  shows "cycleContacts s forward inverse' = Some (Inr s)"
  using assms
  by (auto simp: cycleContacts_def getCurrentLayout_def indexOfFriendWidget_def
      indexOfSortedWidget_def indexOf_notin Let_def)

theorem cycleContacts_without_current_witness:
  "activeChatroomWidget (dialogABG\<lparr>activeChatroomWidget := None\<rparr>) = None
   \<and> hasContact (dialogABG\<lparr>activeChatroomWidget := None\<rparr>) ''A''
   \<and> cycleContacts (dialogABG\<lparr>activeChatroomWidget := None\<rparr>) True False
       = Some (Inr (dialogABG\<lparr>activeChatroomWidget := None\<rparr>))"
  using cycleContacts_without_current [of "dialogABG\<lparr>activeChatroomWidget := None\<rparr>" True False]
  by (simp add: dialogABG_def hasContact_def hashContains_def)

subsection \<open>Unknown contacts\<close>

text \<open>
  Claim C8. For a contact id that the dialog does not manage, \<^verbatim>\<open>focusContact\<close> and
  \<^verbatim>\<open>updateFriendStatus\<close> leave the state of the dialog as it is, and neither crashes.
  \<^verbatim>\<open>focusCommon\<close> returns when it does not find the id. \<^verbatim>\<open>updateFriendStatus\<close> has
  no such check: it hands the null pointer of the failed lookup to the friend layout,
  which is taken here to ignore it.
\<close>

theorem unknown_contact_noop:
  assumes "\<not> hasContact s contactId"
  shows "focusContact s contactId = Inr s \<and> updateFriendStatus s contactId status pos = s"
  using assms
  by (simp add: hasContact_def hashContains_def focusContact_def focusCommon_def hashValue_def
      updateFriendStatus_def addFriendWidget_def castFriendWidget_def
      friendLayout_addFriendWidget_def)

theorem unknown_contact_noop_witness:
  "\<not> hasContact dialogABG ''Z''
   \<and> focusContact dialogABG ''Z'' = Inr dialogABG
   \<and> updateFriendStatus dialogABG ''Z'' Offline 0 = dialogABG"
  using unknown_contact_noop [of dialogABG "''Z''" Offline 0]
  by (simp add: dialogABG_def hasContact_def hashContains_def)

subsection \<open>Accepting a drop\<close>

lemma hasContact_keys: "hasContact s k = (k \<in> hashKeys (contactWidgets s))"
  by (simp add: hasContact_def hashContains_def hashKeys_def map_of_eq_None_iff)

text \<open>
  Claim C6, as stated: the drop is accepted if and only if the id is not managed by the
  dialog. It fails for an id that the friend list does not find: \<open>Z\<close> is not managed by
  the example dialog, and \<^verbatim>\<open>dragEnterEvent\<close> returns without accepting.
\<close>

theorem drop_of_unknown_contact_refused:
  "\<not> hasContact dialogABG ''Z''
   \<and> dragEnterEvent (map_of []) (map_of []) dialogABG
        \<lparr>source = FromFriendWidget, mimeData = [(''toxPk'', ''Z'')]\<rparr> = Inr False"
  by (simp add: dialogABG_def hasContact_def hashContains_def dragEnterEvent_def hashValue_def)

text \<open>
  Claim C6, amended. For a drag that comes from a friend widget or a group widget and
  carries an id, the drop is accepted if and only if the friend list or the group list
  finds the contact and the id checked is not among the ids managed by the dialog. For a
  friend the id checked is the public key of the friend found, for a group the id of the
  MIME data. \<^verbatim>\<open>hasContact\<close>, the test the check ends with, is true exactly of the
  managed ids.
\<close>

theorem dragEnterEvent_accepts:
  "(source event = FromFriendWidget \<longrightarrow> hashValue (mimeData event) ''toxPk'' = Some toxPk \<longrightarrow>
      dragEnterEvent findFriend findGroup s event
        = Inr (case findFriend toxPk of
                 None \<Rightarrow> False
               | Some friendId \<Rightarrow> friendId \<notin> hashKeys (contactWidgets s)))
   \<and> (source event = FromGroupWidget \<longrightarrow> hashValue (mimeData event) ''groupId'' = Some groupId \<longrightarrow>
      dragEnterEvent findFriend findGroup s event
        = Inr (case findGroup groupId of
                 None \<Rightarrow> False
               | Some contact \<Rightarrow> groupId \<notin> hashKeys (contactWidgets s)))
   \<and> hasContact s contactId = (contactId \<in> hashKeys (contactWidgets s))"
  by (simp add: dragEnterEvent_def hasContact_keys split: option.splits)

theorem dragEnterEvent_accepts_witness:
  "dragEnterEvent (map_of [(''Z'', ''Z'')]) (map_of []) dialogABG
        \<lparr>source = FromFriendWidget, mimeData = [(''toxPk'', ''Z'')]\<rparr> = Inr True
   \<and> dragEnterEvent (map_of [(''A'', ''A'')]) (map_of []) dialogABG
        \<lparr>source = FromFriendWidget, mimeData = [(''toxPk'', ''A'')]\<rparr> = Inr False
   \<and> dragEnterEvent (map_of []) (map_of [(''H'', ''H'')]) dialogABG
        \<lparr>source = FromGroupWidget, mimeData = [(''groupId'', ''H'')]\<rparr> = Inr True"
  using dragEnterEvent_accepts [of "\<lparr>source = FromFriendWidget, mimeData = [(''toxPk'', ''Z'')]\<rparr>"
      "''Z''" "map_of [(''Z'', ''Z'')]" "map_of []" dialogABG]
    dragEnterEvent_accepts [of "\<lparr>source = FromFriendWidget, mimeData = [(''toxPk'', ''A'')]\<rparr>"
      "''A''" "map_of [(''A'', ''A'')]" "map_of []" dialogABG]
    dragEnterEvent_accepts [where event = "\<lparr>source = FromGroupWidget, mimeData = [(''groupId'', ''H'')]\<rparr>"
      and groupId = "''H''" and findFriend = "map_of []" and findGroup = "map_of [(''H'', ''H'')]"
      and s = dialogABG]
  by (simp add: hashValue_def hashKeys_def dialogABG_def)

subsection \<open>The turn of direction\<close>

text \<open>
  Claim C3, as stated: without \<^verbatim>\<open>inverse\<close> the direction is turned round exactly when
  the active widget is the last of its grouping and moving forward lands on an empty
  grouping. It fails at the end of the offline grouping: with \<open>B\<close> active in the example
  dialog no grouping is empty at all, the next layout holds \<open>A\<close>, and the forward
  direction is turned round all the same.
\<close>

theorem direction_flips_without_empty_grouping:
  "getCurrentLayout (dialogABG\<lparr>activeChatroomWidget := Some widgetB\<rparr>) = (Some LayoutOffline, 0)
   \<and> 0 = layoutCount (dialogABG\<lparr>activeChatroomWidget := Some widgetB\<rparr>) LayoutOffline - 1
   \<and> \<not> landsOnEmptyGrouping (dialogABG\<lparr>activeChatroomWidget := Some widgetB\<rparr>) LayoutOffline
   \<and> cycleDirection (dialogABG\<lparr>activeChatroomWidget := Some widgetB\<rparr>) LayoutOffline 0 True False
       = False"
  by (simp add: dialogABG_def getCurrentLayout_def indexOfFriendWidget_def indexOfSortedWidget_def
      widgetA_def widgetB_def widgetG_def layoutCount_def layoutItems_def landsOnEmptyGrouping_def
      nextLayout_def layoutIsEmpty_def cycleDirection_def nextIsEmpty_def Let_def)

text \<open>
  Claim C3, amended. Without \<^verbatim>\<open>inverse\<close> the direction is turned round exactly when the
  index is the last of its grouping and every grouping that comes after it, in the order
  the setting \<^verbatim>\<open>groupchatPosition\<close> stands for, is empty: always at the end of the offline
  grouping, which is the last one in both orders. In every other situation, and always
  with \<^verbatim>\<open>inverse\<close>, the direction is kept.
\<close>

theorem cycleDirection_flips:
  "cycleDirection s l i forward False
     = (if i = layoutCount s l - 1
           \<and> (\<forall>x \<in> set (groupingsAfter (groupchatPosition s) l). layoutIsEmpty s x)
        then \<not> forward else forward)
   \<and> cycleDirection s l i forward True = forward"
  by (cases l; cases "groupchatPosition s")
     (auto simp: cycleDirection_def nextIsEmpty_def groupingsAfter_def groupingOrder_def Let_def)

theorem cycleDirection_flips_witness:
  "cycleDirection dialogABG LayoutOffline 0 True False = False
   \<and> cycleDirection dialogABG LayoutOnline 0 True False = True
   \<and> cycleDirection (dialogABG\<lparr>layoutOffline := [], groupLayout := []\<rparr>) LayoutOnline 0 True False
       = False"
  using cycleDirection_flips [of dialogABG LayoutOffline 0 True]
    cycleDirection_flips [of dialogABG LayoutOnline 0 True]
    cycleDirection_flips [of "dialogABG\<lparr>layoutOffline := [], groupLayout := []\<rparr>" LayoutOnline 0 True]
  by (simp add: dialogABG_def layoutCount_def layoutItems_def layoutIsEmpty_def
      groupingsAfter_def groupingOrder_def)

subsection \<open>The loop of \<^verbatim>\<open>cycleContacts\<close>\<close>

text \<open>
  With three different layouts in \<^verbatim>\<open>layouts\<close>, \<^verbatim>\<open>nextLayout\<close> walks round them; the
  unsigned sum brings the step back from the first layout to the last one.
\<close>

lemma nextLayout_three:
  assumes "layouts s = [a, b, c]" "distinct [a, b, c]"
  shows "nextLayout s a True = Some b" "nextLayout s b True = Some c" "nextLayout s c True = Some a"
    "nextLayout s a False = Some c" "nextLayout s b False = Some a" "nextLayout s c False = Some b"
  using assms by (simp_all add: nextLayout_def Let_def)

lemma cycleLoop_exit:
  "0 \<le> i \<Longrightarrow> i < layoutCount s l \<Longrightarrow> cycleLoop s f l i = Some (Inr (l, i))"
  by (subst cycleLoop.simps) simp

lemma cycleLoop_forward:
  "0 \<le> i \<Longrightarrow> layoutCount s l \<le> i \<Longrightarrow> nextLayout s l f = Some n \<Longrightarrow>
   cycleLoop s f l i = cycleLoop s f n 0"
  by (subst cycleLoop.simps) (simp add: Let_def)

lemma cycleLoop_backward:
  "i < 0 \<Longrightarrow> nextLayout s l f = Some n \<Longrightarrow>
   cycleLoop s f l i = cycleLoop s f n (layoutCount s n - 1)"
  by (subst cycleLoop.simps) (simp add: Let_def)

lemma offsets_three:
  assumes "layouts s = [a, b, c]" "distinct [a, b, c]"
  shows "layoutOffset s a = 0"
    "layoutOffset s b = length (layoutItems s a)"
    "layoutOffset s c = length (layoutItems s a) + length (layoutItems s b)"
    "length (ring s) = length (layoutItems s a) + length (layoutItems s b) + length (layoutItems s c)"
  using assms by (auto simp: layoutOffset_def ring_def)

lemma loop_wrap_forward:
  assumes n: "nextLayout s x f = Some y" "nextLayout s y f = Some z" "nextLayout s z f = Some x"
    and ne: "layoutItems s x \<noteq> []"
  shows "cycleLoop s f x (layoutCount s x)
         = Some (Inr (if layoutItems s y \<noteq> [] then (y, 0)
                      else if layoutItems s z \<noteq> [] then (z, 0) else (x, 0)))"
proof -
  have s1: "cycleLoop s f x (layoutCount s x) = cycleLoop s f y 0"
    by (rule cycleLoop_forward [OF _ _ n(1)]) (simp_all add: layoutCount_def)
  have e: "layoutItems s l \<noteq> [] \<Longrightarrow> cycleLoop s f l 0 = Some (Inr (l, 0))" for l
    by (rule cycleLoop_exit) (simp_all add: layoutCount_def)
  have s2: "layoutItems s y = [] \<Longrightarrow> cycleLoop s f y 0 = cycleLoop s f z 0"
    by (rule cycleLoop_forward [OF _ _ n(2)]) (simp_all add: layoutCount_def)
  have s3: "layoutItems s z = [] \<Longrightarrow> cycleLoop s f z 0 = cycleLoop s f x 0"
    by (rule cycleLoop_forward [OF _ _ n(3)]) (simp_all add: layoutCount_def)
  show ?thesis using s1 s2 s3 e ne by auto
qed

lemma loop_wrap_backward:
  assumes n: "nextLayout s x f = Some y" "nextLayout s y f = Some z" "nextLayout s z f = Some x"
    and ne: "layoutItems s x \<noteq> []"
  shows "cycleLoop s f x (- 1)
         = Some (Inr (if layoutItems s y \<noteq> [] then (y, layoutCount s y - 1)
                      else if layoutItems s z \<noteq> [] then (z, layoutCount s z - 1)
                      else (x, layoutCount s x - 1)))"
proof -
  have s1: "cycleLoop s f x (- 1) = cycleLoop s f y (layoutCount s y - 1)"
    by (rule cycleLoop_backward [OF _ n(1)]) simp
  have e: "layoutItems s l \<noteq> [] \<Longrightarrow>
           cycleLoop s f l (layoutCount s l - 1) = Some (Inr (l, layoutCount s l - 1))" for l
    by (rule cycleLoop_exit) (simp_all add: layoutCount_def)
  have s2: "layoutItems s y = [] \<Longrightarrow>
            cycleLoop s f y (layoutCount s y - 1) = cycleLoop s f z (layoutCount s z - 1)"
    by (rule cycleLoop_backward [OF _ n(2)]) (simp add: layoutCount_def)
  have s3: "layoutItems s z = [] \<Longrightarrow>
            cycleLoop s f z (layoutCount s z - 1) = cycleLoop s f x (layoutCount s x - 1)"
    by (rule cycleLoop_backward [OF _ n(3)]) (simp add: layoutCount_def)
  show ?thesis using s1 s2 s3 e ne by auto
qed

lemma loop_forward_pos:
  assumes L: "layouts s = [a, b, c]" "distinct [a, b, c]"
    and l: "l \<in> {a, b, c}" and i: "0 \<le> i" "i < layoutCount s l"
  shows "\<exists>l' i'. cycleLoop s True l (i + 1) = Some (Inr (l', i'))
           \<and> 0 \<le> i' \<and> i' < layoutCount s l' \<and> l' \<in> {a, b, c}
           \<and> layoutOffset s l' + nat i' = (layoutOffset s l + nat i + 1) mod length (ring s)"
proof (cases "i + 1 < layoutCount s l")
  case True
  have "cycleLoop s True l (i + 1) = Some (Inr (l, i + 1))"
    using i True by (intro cycleLoop_exit) simp_all
  moreover have "layoutOffset s l + nat i + 1 < length (ring s)"
    using l True i offsets_three [OF L] by (auto simp: layoutCount_def)
  ultimately show ?thesis using l i True by (simp add: nat_add_distrib)
next
  case False
  with i have last: "i + 1 = layoutCount s l" by simp
  then obtain k where k: "i = int k" "length (layoutItems s l) = Suc k"
    using i by (auto simp: layoutCount_def intro: that [of "nat i"])
  have ne: "layoutItems s l \<noteq> []" using k by auto
  note nl = nextLayout_three [OF L]
  note off = offsets_three [OF L]
  from l consider "l = a" | "l = b" | "l = c" by auto
  then show ?thesis
  proof cases
    case 1
    have "cycleLoop s True l (i + 1)
          = Some (Inr (if layoutItems s b \<noteq> [] then (b, 0)
                       else if layoutItems s c \<noteq> [] then (c, 0) else (a, 0)))"
      unfolding last 1 using ne 1 by (intro loop_wrap_forward [OF nl(1) nl(2) nl(3)]) simp
    then show ?thesis using k off 1 by (auto simp: layoutCount_def)
  next
    case 2
    have "cycleLoop s True l (i + 1)
          = Some (Inr (if layoutItems s c \<noteq> [] then (c, 0)
                       else if layoutItems s a \<noteq> [] then (a, 0) else (b, 0)))"
      unfolding last 2 using ne 2 by (intro loop_wrap_forward [OF nl(2) nl(3) nl(1)]) simp
    then show ?thesis using k off 2 by (auto simp: layoutCount_def)
  next
    case 3
    have "cycleLoop s True l (i + 1)
          = Some (Inr (if layoutItems s a \<noteq> [] then (a, 0)
                       else if layoutItems s b \<noteq> [] then (b, 0) else (c, 0)))"
      unfolding last 3 using ne 3 by (intro loop_wrap_forward [OF nl(3) nl(1) nl(2)]) simp
    then show ?thesis using k off 3 by (auto simp: layoutCount_def)
  qed
qed


lemma pred_mod:
  fixes p n :: nat
  assumes h: "0 < p" "p < n"
  shows "(p + n - 1) mod n = p - 1"
proof -
  have "(p + n - 1) mod n = ((p - 1) + n) mod n" using h by simp
  also have "\<dots> = (p - 1) mod n" by simp
  also have "\<dots> = p - 1" using h by simp
  finally show ?thesis .
qed

lemma last_index: "xs \<noteq> [] \<Longrightarrow> x + nat (int (length xs) - 1) = x + length xs - 1"
  by (simp add: nat_diff_distrib Suc_leI)

lemma loop_backward_pos:
  assumes L: "layouts s = [a, b, c]" "distinct [a, b, c]"
    and l: "l \<in> {a, b, c}" and i: "0 \<le> i" "i < layoutCount s l"
  shows "\<exists>l' i'. cycleLoop s False l (i - 1) = Some (Inr (l', i'))
           \<and> 0 \<le> i' \<and> i' < layoutCount s l' \<and> l' \<in> {a, b, c}
           \<and> layoutOffset s l' + nat i'
              = (layoutOffset s l + nat i + length (ring s) - 1) mod length (ring s)"
proof (cases "0 < i")
  case True
  have "cycleLoop s False l (i - 1) = Some (Inr (l, i - 1))"
    using i True by (intro cycleLoop_exit) simp_all
  moreover have "layoutOffset s l + nat i < length (ring s)"
    using l i offsets_three [OF L] by (auto simp: layoutCount_def)
  moreover have "0 < layoutOffset s l + nat i" using True by simp
  ultimately show ?thesis using l i True pred_mod [of "layoutOffset s l + nat i" "length (ring s)"]
    by (simp add: nat_diff_distrib)
next
  case False
  with i have first: "i = 0" by simp
  have ne: "layoutItems s l \<noteq> []" using i by (auto simp: layoutCount_def)
  note nl = nextLayout_three [OF L]
  note off = offsets_three [OF L]
  have fin: ?thesis
    if r: "cycleLoop s False l (- 1) = Some (Inr (l', layoutCount s l' - 1))"
      and l': "l' \<in> {a, b, c}" "layoutItems s l' \<noteq> []"
      and p: "layoutOffset s l' + length (layoutItems s l') - 1
              = (layoutOffset s l + length (ring s) - 1) mod length (ring s)"
    for l'
  proof -
    have "layoutOffset s l' + nat (layoutCount s l' - 1)
          = (layoutOffset s l + nat i + length (ring s) - 1) mod length (ring s)"
      using p l'(2) first by (simp add: layoutCount_def last_index)
    moreover have "0 \<le> layoutCount s l' - 1" "layoutCount s l' - 1 < layoutCount s l'"
      using l'(2) by (simp_all add: layoutCount_def Suc_leI)
    ultimately show ?thesis using r l'(1) first by auto
  qed
  have top: "0 < length (ring s) \<Longrightarrow> (0 + length (ring s) - 1) mod length (ring s) = length (ring s) - 1"
    by simp
  from l consider "l = a" | "l = b" | "l = c" by auto
  then show ?thesis
  proof cases
    case 1
    have r: "cycleLoop s False l (- 1)
          = Some (Inr (if layoutItems s c \<noteq> [] then (c, layoutCount s c - 1)
                       else if layoutItems s b \<noteq> [] then (b, layoutCount s b - 1)
                       else (a, layoutCount s a - 1)))"
      unfolding 1 using ne 1 by (simp add: loop_wrap_backward [OF nl(4) nl(6) nl(5)])
    have n0: "0 < length (ring s)" using off ne 1 by simp
    consider "layoutItems s c \<noteq> []" | "layoutItems s c = []" "layoutItems s b \<noteq> []"
      | "layoutItems s c = []" "layoutItems s b = []" by blast
    then show ?thesis
    proof cases
      case 1
      show ?thesis by (rule fin [of c]) (use r 1 off \<open>l = a\<close> top [OF n0] in simp_all)
    next
      case 2
      show ?thesis by (rule fin [of b]) (use r 2 off \<open>l = a\<close> top [OF n0] in simp_all)
    next
      case 3
      show ?thesis by (rule fin [of a]) (use r 3 off \<open>l = a\<close> ne top [OF n0] in simp_all)
    qed
  next
    case 2
    have r: "cycleLoop s False l (- 1)
          = Some (Inr (if layoutItems s a \<noteq> [] then (a, layoutCount s a - 1)
                       else if layoutItems s c \<noteq> [] then (c, layoutCount s c - 1)
                       else (b, layoutCount s b - 1)))"
      unfolding 2 using ne 2 by (simp add: loop_wrap_backward [OF nl(5) nl(4) nl(6)])
    have n0: "0 < length (ring s)" using off ne 2 by simp
    consider "layoutItems s a \<noteq> []" | "layoutItems s a = []" "layoutItems s c \<noteq> []"
      | "layoutItems s a = []" "layoutItems s c = []" by blast
    then show ?thesis
    proof cases
      case 1
      then have "0 < length (layoutItems s a)" "length (layoutItems s a) < length (ring s)"
        using off ne \<open>l = b\<close> by auto
      from pred_mod [OF this] show ?thesis
        by (intro fin [of a]) (use r 1 off \<open>l = b\<close> in simp_all)
    next
      case 2
      show ?thesis by (rule fin [of c]) (use r 2 off \<open>l = b\<close> top [OF n0] in simp_all)
    next
      case 3
      show ?thesis by (rule fin [of b]) (use r 3 off \<open>l = b\<close> ne top [OF n0] in simp_all)
    qed
  next
    case 3
    have r: "cycleLoop s False l (- 1)
          = Some (Inr (if layoutItems s b \<noteq> [] then (b, layoutCount s b - 1)
                       else if layoutItems s a \<noteq> [] then (a, layoutCount s a - 1)
                       else (c, layoutCount s c - 1)))"
      unfolding 3 using ne 3 by (simp add: loop_wrap_backward [OF nl(6) nl(5) nl(4)])
    have n0: "0 < length (ring s)" using off ne 3 by simp
    consider "layoutItems s b \<noteq> []" | "layoutItems s b = []" "layoutItems s a \<noteq> []"
      | "layoutItems s b = []" "layoutItems s a = []" by blast
    then show ?thesis
    proof cases
      case 1
      then have "0 < length (layoutItems s a) + length (layoutItems s b)"
        "length (layoutItems s a) + length (layoutItems s b) < length (ring s)"
        using off ne \<open>l = c\<close> by auto
      from pred_mod [OF this] show ?thesis
        by (intro fin [of b]) (use r 1 off \<open>l = c\<close> in simp_all)
    next
      case 2
      then have "0 < length (layoutItems s a) + length (layoutItems s b)"
        "length (layoutItems s a) + length (layoutItems s b) < length (ring s)"
        using off ne \<open>l = c\<close> by auto
      from pred_mod [OF this] show ?thesis
        by (intro fin [of a]) (use r 2 off \<open>l = c\<close> in simp_all)
    next
      case 3
      show ?thesis by (rule fin [of c]) (use r 3 off \<open>l = c\<close> ne top [OF n0] in simp_all)
    qed
  qed
qed

subsection \<open>One call of \<^verbatim>\<open>cycleContacts\<close> as a step on the ring\<close>

lemma ring_nth:
  assumes L: "layouts s = [a, b, c]" "distinct [a, b, c]"
    and l: "l \<in> {a, b, c}" and i: "0 \<le> i" "i < layoutCount s l"
  shows "layoutOffset s l + nat i < length (ring s)"
    and "ring s ! (layoutOffset s l + nat i) = layoutItems s l ! nat i"
proof -
  note off = offsets_three [OF L]
  have r: "ring s = layoutItems s a @ layoutItems s b @ layoutItems s c"
    using L by (simp add: ring_def)
  have n: "nat i < length (layoutItems s l)" using i by (simp add: layoutCount_def)
  show "layoutOffset s l + nat i < length (ring s)" using l off n by auto
  show "ring s ! (layoutOffset s l + nat i) = layoutItems s l ! nat i"
    using l off n r by (auto simp: nth_append)
qed

lemma layoutsOk_cases:
  assumes "layoutsOk s"
  obtains a b c where "layouts s = [a, b, c]" "distinct [a, b, c]"
    "set (ring s) = set (allWidgets s)" "distinct (ring s) = distinct (allWidgets s)"
    "length (ring s) = length (allWidgets s)"
  using assms unfolding layoutsOk_def
proof
  assume h: "layouts s = [LayoutOnline, LayoutGroups, LayoutOffline]"
  show ?thesis
    by (rule that [OF h]) (auto simp: ring_def h allWidgets_def layoutItems_def)
next
  assume h: "layouts s = [LayoutGroups, LayoutOnline, LayoutOffline]"
  show ?thesis
    by (rule that [OF h]) (auto simp: ring_def h allWidgets_def layoutItems_def)
qed

lemma ring_allWidgets:
  assumes "layoutsOk s"
  shows "set (ring s) = set (allWidgets s)" "distinct (ring s) = distinct (allWidgets s)"
    "length (ring s) = length (allWidgets s)"
  using assms by (auto simp: layoutsOk_def ring_def allWidgets_def layoutItems_def)

lemma getCurrentLayout_found:
  assumes "activeChatroomWidget s = Some w" "w \<in> set (allWidgets s)"
  shows "\<exists>l i. getCurrentLayout s = (Some l, i) \<and> 0 \<le> i \<and> i < layoutCount s l
               \<and> layoutItems s l ! nat i = w"
proof -
  have f: "w \<in> set xs \<Longrightarrow> indexOf w xs \<noteq> - 1 \<and> 0 \<le> indexOf w xs
            \<and> indexOf w xs < int (length xs) \<and> xs ! nat (indexOf w xs) = w" for xs
    using indexOf_in [of w xs] by auto
  have g: "w \<notin> set xs \<Longrightarrow> indexOf w xs = - 1" for xs
    by (simp add: indexOf_notin)
  consider "w \<in> set (layoutOnline s)"
    | "w \<notin> set (layoutOnline s)" "w \<in> set (layoutOffline s)"
    | "w \<notin> set (layoutOnline s)" "w \<notin> set (layoutOffline s)" "w \<in> set (groupLayout s)"
    using assms(2) by (auto simp: allWidgets_def)
  then show ?thesis
  proof cases
    case 1
    from f [OF 1] show ?thesis using assms(1)
      by (simp add: getCurrentLayout_def indexOfFriendWidget_def indexOfSortedWidget_def
          layoutCount_def layoutItems_def Let_def)
  next
    case 2
    from f [OF 2(2)] g [OF 2(1)] show ?thesis using assms(1)
      by (simp add: getCurrentLayout_def indexOfFriendWidget_def indexOfSortedWidget_def
          layoutCount_def layoutItems_def Let_def)
  next
    case 3
    from f [OF 3(3)] g [OF 3(1)] g [OF 3(2)] show ?thesis using assms(1)
      by (simp add: getCurrentLayout_def indexOfFriendWidget_def indexOfSortedWidget_def
          layoutCount_def layoutItems_def Let_def)
  qed
qed

lemma ringPos_active:
  assumes ok: "layoutsOk s" and act: "activeChatroomWidget s = Some w" "w \<in> set (allWidgets s)"
  shows "ringPos s < length (ring s) \<and> ring s ! ringPos s = w"
proof -
  from ok obtain a b c where L: "layouts s = [a, b, c]" "distinct [a, b, c]"
    by (rule layoutsOk_cases)
  from getCurrentLayout_found [OF act] obtain l i where
    c: "getCurrentLayout s = (Some l, i)" "0 \<le> i" "i < layoutCount s l"
       "layoutItems s l ! nat i = w" by blast
  have l: "l \<in> {a, b, c}" using L ok by (cases l) (auto simp: layoutsOk_def)
  from ring_nth [OF L l c(2) c(3)] c show ?thesis by (simp add: ringPos_def)
qed

lemma cycleContacts_step:
  assumes ok: "layoutsOk s" and act: "activeChatroomWidget s = Some w" "w \<in> set (allWidgets s)"
    and forms: "\<forall>x \<in> set (allWidgets s). hashContains (contactChatForms s) (getContact x)"
  shows "\<exists>t form. t = ring s ! ((ringPos s + (if currentDirection s f inv' then 1 else length (ring s) - 1))
                      mod length (ring s))
           \<and> t \<in> set (allWidgets s)
           \<and> hashValue (contactChatForms s) (getContact t) = Some form
           \<and> cycleContacts s f inv'
               = Some (Inr (if t = w then s
                            else s\<lparr>activeChatroomWidget := Some t, contentLayout := Some form\<rparr>))"
proof -
  from ok obtain a b c where L: "layouts s = [a, b, c]" "distinct [a, b, c]"
    and R: "set (ring s) = set (allWidgets s)"
    by (rule layoutsOk_cases)
  from getCurrentLayout_found [OF act] obtain l i where
    c: "getCurrentLayout s = (Some l, i)" "0 \<le> i" "i < layoutCount s l"
       "layoutItems s l ! nat i = w" by blast
  have l: "l \<in> {a, b, c}" using L ok by (cases l) (auto simp: layoutsOk_def)
  have pos: "ringPos s = layoutOffset s l + nat i" using c by (simp add: ringPos_def)
  have n0: "0 < length (ring s)" using ring_nth(1) [OF L l c(2) c(3)] by (cases "ring s") auto
  define d where "d = cycleDirection s l i f inv'"
  have dir: "currentDirection s f inv' = d" using c by (simp add: currentDirection_def d_def)
  have "\<exists>l' i'. cycleLoop s d l (i + (if d then 1 else - 1)) = Some (Inr (l', i'))
           \<and> 0 \<le> i' \<and> i' < layoutCount s l' \<and> l' \<in> {a, b, c}
           \<and> layoutOffset s l' + nat i'
              = (ringPos s + (if d then 1 else length (ring s) - 1)) mod length (ring s)"
  proof (cases d)
    case True
    with loop_forward_pos [OF L l c(2) c(3)] pos show ?thesis by simp
  next
    case False
    have e: "layoutOffset s l + nat i + length (ring s) - 1 = ringPos s + (length (ring s) - 1)"
      using n0 pos by arith
    from loop_backward_pos [OF L l c(2) c(3)] show ?thesis
      unfolding e using False by simp
  qed
  then obtain l' i' where
    lp: "cycleLoop s d l (i + (if d then 1 else - 1)) = Some (Inr (l', i'))"
      "0 \<le> i'" "i' < layoutCount s l'" "l' \<in> {a, b, c}"
      "layoutOffset s l' + nat i'
         = (ringPos s + (if d then 1 else length (ring s) - 1)) mod length (ring s)"
    by blast
  define t where "t = layoutItems s l' ! nat i'"
  have t1: "t = ring s ! ((ringPos s + (if d then 1 else length (ring s) - 1)) mod length (ring s))"
    using ring_nth(2) [OF L lp(4) lp(2) lp(3)] lp(5) by (simp add: t_def)
  have t2: "t \<in> set (allWidgets s)"
    using ring_nth(1) [OF L lp(4) lp(2) lp(3)] ring_nth(2) [OF L lp(4) lp(2) lp(3)] R
    by (metis nth_mem t_def)
  from forms t2 obtain form where fm: "hashValue (contactChatForms s) (getContact t) = Some form"
    by (auto simp: hashContains_def hashValue_def)
  have "cycleContacts s f inv'
        = Some (Inr (if t = w then s
                     else s\<lparr>activeChatroomWidget := Some t, contentLayout := Some form\<rparr>))"
    using c(1) c(2) lp(1) act(1) fm
    by (simp add: cycleContacts_def d_def [symmetric] t_def [symmetric] activate_def Let_def)
  with t1 t2 fm dir show ?thesis by blast
qed

subsection \<open>Repeated calls\<close>

lemma frame_active [simp]:
  "ring (s\<lparr>activeChatroomWidget := x, contentLayout := y\<rparr>) = ring s"
  "allWidgets (s\<lparr>activeChatroomWidget := x, contentLayout := y\<rparr>) = allWidgets s"
  "layoutsOk (s\<lparr>activeChatroomWidget := x, contentLayout := y\<rparr>) = layoutsOk s"
  by (simp_all add: ring_def allWidgets_def layoutsOk_def layoutItems_def [abs_def])

lemma wellFormed_parts:
  assumes "wellFormed s"
  shows "layoutsOk s" "distinct (allWidgets s)"
    "\<forall>x \<in> set (allWidgets s). hashContains (contactChatForms s) (getContact x)"
    "\<forall>x \<in> set (allWidgets s). hashValue (contactWidgets s) (getContact x) = Some x"
    "activeChatroomWidget s = Some w \<Longrightarrow> w \<in> set (allWidgets s)"
  using assms by (auto simp: wellFormed_def)

lemma wellFormed_frame:
  assumes "wellFormed s" "t \<in> set (allWidgets s)"
  shows "wellFormed (s\<lparr>activeChatroomWidget := Some t, contentLayout := y\<rparr>)"
  using assms by (simp add: wellFormed_def allWidgets_def layoutsOk_def)

text \<open>One call, as an update of the active widget and of the content pane.\<close>

lemma cycleContacts_frame:
  assumes ok: "layoutsOk s" and act: "activeChatroomWidget s = Some w" "w \<in> set (allWidgets s)"
    and forms: "\<forall>x \<in> set (allWidgets s). hashContains (contactChatForms s) (getContact x)"
  shows "\<exists>y. cycleContacts s f inv'
            = Some (Inr (s\<lparr>activeChatroomWidget :=
                   Some (ring s ! ((ringPos s + (if currentDirection s f inv' then 1
                                                  else length (ring s) - 1))
                                   mod length (ring s))),
                 contentLayout := y\<rparr>))"
proof -
  from cycleContacts_step [OF ok act forms, of f inv'] obtain t form where
    t: "t = ring s ! ((ringPos s + (if currentDirection s f inv' then 1 else length (ring s) - 1))
                       mod length (ring s))"
    and r: "cycleContacts s f inv'
            = Some (Inr (if t = w then s
                         else s\<lparr>activeChatroomWidget := Some t, contentLayout := Some form\<rparr>))"
    by blast
  show ?thesis
  proof (cases "t = w")
    case True
    then have "s = s\<lparr>activeChatroomWidget := Some t, contentLayout := contentLayout s\<rparr>"
      using act(1) by simp
    with r True t show ?thesis by metis
  next
    case False
    with r t show ?thesis by auto
  qed
qed




subsection \<open>A full round\<close>


lemma shift_mod_neq:
  fixes p k n :: nat
  assumes "p < n" "0 < k" "k < n"
  shows "(p + k) mod n \<noteq> p"
proof (cases "p + k < n")
  case True
  then show ?thesis using assms by simp
next
  case False
  then have "(p + k) mod n = (p + k - n) mod n" by (simp add: le_mod_geq)
  also have "\<dots> = p + k - n" using assms by simp
  finally show ?thesis using assms False by simp
qed







subsection \<open>The scenario of three contacts\<close>

lemma getCurrentLayout_where:
  assumes act: "activeChatroomWidget s = Some w"
  shows "w \<in> set (layoutOnline s) \<Longrightarrow>
           getCurrentLayout s = (Some LayoutOnline, indexOf w (layoutOnline s))"
    and "w \<notin> set (layoutOnline s) \<Longrightarrow> w \<in> set (layoutOffline s) \<Longrightarrow>
           getCurrentLayout s = (Some LayoutOffline, indexOf w (layoutOffline s))"
    and "w \<notin> set (layoutOnline s) \<Longrightarrow> w \<notin> set (layoutOffline s) \<Longrightarrow>
           w \<in> set (groupLayout s) \<Longrightarrow>
           getCurrentLayout s = (Some LayoutGroups, indexOf w (groupLayout s))"
  using act
  by (simp_all add: getCurrentLayout_def indexOfFriendWidget_def indexOfSortedWidget_def
      indexOf_notin Let_def)

lemma three_contacts_facts:
  assumes sh: "layoutOnline s = [a]" "groupLayout s = [g]" "layoutOffline s = [b]"
    "distinct [a, g, b]" "layouts s = [LayoutOnline, LayoutGroups, LayoutOffline]"
  shows "layoutsOk s" "allWidgets s = [a, g, b]" "ring s = [a, g, b]"
    "layoutOffset s LayoutOnline = 0" "layoutOffset s LayoutGroups = 1"
    "layoutOffset s LayoutOffline = 2"
  using sh
  by (simp_all add: layoutsOk_def allWidgets_def ring_def layoutItems_def layoutOffset_def)

lemma three_contacts_step:
  assumes sh: "layoutOnline s = [a]" "groupLayout s = [g]" "layoutOffline s = [b]"
    "distinct [a, g, b]" "layouts s = [LayoutOnline, LayoutGroups, LayoutOffline]"
    and forms: "\<forall>w \<in> set [a, g, b]. hashContains (contactChatForms s) (getContact w)"
  shows "activeChatroomWidget s = Some a \<Longrightarrow>
           \<exists>y. cycleContacts s True inv'
                 = Some (Inr (s\<lparr>activeChatroomWidget := Some g, contentLayout := y\<rparr>))"
    and "activeChatroomWidget s = Some g \<Longrightarrow>
           \<exists>y. cycleContacts s True inv'
                 = Some (Inr (s\<lparr>activeChatroomWidget := Some b, contentLayout := y\<rparr>))"
    and "activeChatroomWidget s = Some b \<Longrightarrow>
           \<exists>y. cycleContacts s True inv'
                 = Some (Inr (s\<lparr>activeChatroomWidget := Some (if inv' then a else g),
                               contentLayout := y\<rparr>))"
proof -
  note t = three_contacts_facts [OF sh]
  have fm: "\<forall>x \<in> set (allWidgets s). hashContains (contactChatForms s) (getContact x)"
    using forms t(2) by simp
  have m: "a \<in> set (allWidgets s)" "g \<in> set (allWidgets s)" "b \<in> set (allWidgets s)"
    using t(2) by simp_all
  {
    assume act: "activeChatroomWidget s = Some a"
    have cur: "getCurrentLayout s = (Some LayoutOnline, 0)"
      using getCurrentLayout_where(1) [OF act] sh by auto
    have pd: "ringPos s = 0" "currentDirection s True inv' = True"
      using cur sh t(4-6) by (simp_all add: ringPos_def currentDirection_def cycleDirection_def
          nextIsEmpty_def layoutIsEmpty_def layoutItems_def)
    have e: "ring s ! ((ringPos s + (if currentDirection s True inv' then 1
                                           else length (ring s) - 1)) mod length (ring s)) = g"
      unfolding pd t(3) by simp
    show "\<exists>y. cycleContacts s True inv'
                 = Some (Inr (s\<lparr>activeChatroomWidget := Some g, contentLayout := y\<rparr>))"
      using cycleContacts_frame [OF t(1) act m(1) fm, of True inv'] unfolding e .
  }
  {
    assume act: "activeChatroomWidget s = Some g"
    have cur: "getCurrentLayout s = (Some LayoutGroups, 0)"
      using getCurrentLayout_where(3) [OF act] sh by auto
    have pd: "ringPos s = 1" "currentDirection s True inv' = True"
      using cur sh t(4-6) by (simp_all add: ringPos_def currentDirection_def cycleDirection_def
          nextIsEmpty_def layoutIsEmpty_def layoutItems_def)
    have e: "ring s ! ((ringPos s + (if currentDirection s True inv' then 1
                                           else length (ring s) - 1)) mod length (ring s)) = b"
      unfolding pd t(3) by simp
    show "\<exists>y. cycleContacts s True inv'
                 = Some (Inr (s\<lparr>activeChatroomWidget := Some b, contentLayout := y\<rparr>))"
      using cycleContacts_frame [OF t(1) act m(2) fm, of True inv'] unfolding e .
  }
  {
    assume act: "activeChatroomWidget s = Some b"
    have cur: "getCurrentLayout s = (Some LayoutOffline, 0)"
      using getCurrentLayout_where(2) [OF act] sh by auto
    have pd: "ringPos s = 2" "currentDirection s True inv' = inv'"
      using cur sh t(4-6) by (simp_all add: ringPos_def currentDirection_def cycleDirection_def
          nextIsEmpty_def layoutIsEmpty_def layoutItems_def layoutCount_def)
    have e: "ring s ! ((ringPos s + (if currentDirection s True inv' then 1
                                           else length (ring s) - 1)) mod length (ring s))
                  = (if inv' then a else g)"
      unfolding pd t(3) by (cases inv') simp_all
    show "\<exists>y. cycleContacts s True inv'
                 = Some (Inr (s\<lparr>activeChatroomWidget := Some (if inv' then a else g),
                               contentLayout := y\<rparr>))"
      using cycleContacts_frame [OF t(1) act m(3) fm, of True inv'] unfolding e .
  }
qed

text \<open>
  Claim C1, amended. In a dialog whose layouts hold an online friend \<open>a\<close>, a group \<open>g\<close>
  and an offline friend \<open>b\<close> and nothing else, groups not on top and \<open>a\<close> active, three
  calls of \<^verbatim>\<open>cycleContacts\<close> with \<^verbatim>\<open>forward\<close> all return; the first activates \<open>g\<close>, the
  second \<open>b\<close>, and the third activates \<open>a\<close> again when \<^verbatim>\<open>inverse\<close> is set, and \<open>g\<close>
  again when it is not: \<open>b\<close> is the last contact, and there the direction is turned
  round.
\<close>

theorem three_contacts_cycle:
  assumes sh: "layoutOnline s = [a]" "groupLayout s = [g]" "layoutOffline s = [b]"
    "distinct [a, g, b]" "layouts s = [LayoutOnline, LayoutGroups, LayoutOffline]"
    "groupchatPosition s = False"
    and forms: "\<forall>w \<in> set [a, g, b]. hashContains (contactChatForms s) (getContact w)"
    and act: "activeChatroomWidget s = Some a"
  shows "\<exists>s1 s2 s3.
           cycleContacts s True inverse' = Some (Inr s1) \<and> activeChatroomWidget s1 = Some g
           \<and> cycleContacts s1 True inverse' = Some (Inr s2) \<and> activeChatroomWidget s2 = Some b
           \<and> cycleContacts s2 True inverse' = Some (Inr s3)
           \<and> activeChatroomWidget s3 = Some (if inverse' then a else g)"
proof -
  from three_contacts_step(1) [OF sh(1-5) forms act, of inverse'] obtain y1 where
    r1: "cycleContacts s True inverse'
         = Some (Inr (s\<lparr>activeChatroomWidget := Some g, contentLayout := y1\<rparr>))" by blast
  let ?s1 = "s\<lparr>activeChatroomWidget := Some g, contentLayout := y1\<rparr>"
  have "\<exists>y. cycleContacts ?s1 True inverse'
             = Some (Inr (?s1\<lparr>activeChatroomWidget := Some b, contentLayout := y\<rparr>))"
    by (rule three_contacts_step(2) [of _ a g b]) (use sh forms in simp_all)
  then obtain y2 where
    r2: "cycleContacts ?s1 True inverse'
         = Some (Inr (s\<lparr>activeChatroomWidget := Some b, contentLayout := y2\<rparr>))" by auto
  let ?s2 = "s\<lparr>activeChatroomWidget := Some b, contentLayout := y2\<rparr>"
  have "\<exists>y. cycleContacts ?s2 True inverse'
             = Some (Inr (?s2\<lparr>activeChatroomWidget := Some (if inverse' then a else g),
                            contentLayout := y\<rparr>))"
    by (rule three_contacts_step(3) [of _ a g b]) (use sh forms in simp_all)
  then obtain y3 where
    r3: "cycleContacts ?s2 True inverse'
         = Some (Inr (s\<lparr>activeChatroomWidget := Some (if inverse' then a else g),
                        contentLayout := y3\<rparr>))" by auto
  from r1 r2 r3 show ?thesis by auto
qed

text \<open>
  Claim C1, as stated: three forward calls without \<^verbatim>\<open>inverse\<close> activate \<open>G\<close>, then
  \<open>B\<close>, then \<open>A\<close> again. In the dialog of the scenario the first two calls do activate
  \<open>G\<close> and \<open>B\<close>, but the third activates \<open>G\<close>, not \<open>A\<close>.
\<close>

theorem third_call_does_not_wrap:
  "layoutOnline dialogABG = [widgetA] \<and> groupLayout dialogABG = [widgetG]
   \<and> layoutOffline dialogABG = [widgetB] \<and> groupchatPosition dialogABG = False
   \<and> hashKeys (contactWidgets dialogABG) = {''A'', ''B'', ''G''}
   \<and> activeChatroomWidget dialogABG = Some widgetA
   \<and> cycleTimes 1 dialogABG True False
       = Some (Inr (dialogABG\<lparr>activeChatroomWidget := Some widgetG, contentLayout := Some 12\<rparr>))
   \<and> cycleTimes 2 dialogABG True False
       = Some (Inr (dialogABG\<lparr>activeChatroomWidget := Some widgetB, contentLayout := Some 11\<rparr>))
   \<and> cycleTimes 3 dialogABG True False
       = Some (Inr (dialogABG\<lparr>activeChatroomWidget := Some widgetG, contentLayout := Some 12\<rparr>))
   \<and> widgetG \<noteq> widgetA"
proof -
  have "cycleTimes 1 dialogABG True False
       = Some (Inr (dialogABG\<lparr>activeChatroomWidget := Some widgetG, contentLayout := Some 12\<rparr>))"
    by code_simp
  moreover have "cycleTimes 2 dialogABG True False
       = Some (Inr (dialogABG\<lparr>activeChatroomWidget := Some widgetB, contentLayout := Some 11\<rparr>))"
    by code_simp
  moreover have "cycleTimes 3 dialogABG True False
       = Some (Inr (dialogABG\<lparr>activeChatroomWidget := Some widgetG, contentLayout := Some 12\<rparr>))"
    by code_simp
  ultimately show ?thesis
    by (auto simp: dialogABG_def widgetA_def widgetG_def hashKeys_def)
qed

theorem three_contacts_cycle_witness:
  "\<exists>s1 s2 s3.
     cycleContacts dialogABG True True = Some (Inr s1) \<and> activeChatroomWidget s1 = Some widgetG
     \<and> cycleContacts s1 True True = Some (Inr s2) \<and> activeChatroomWidget s2 = Some widgetB
     \<and> cycleContacts s2 True True = Some (Inr s3) \<and> activeChatroomWidget s3 = Some widgetA"
  using three_contacts_cycle [of dialogABG widgetA widgetG widgetB True]
  by (simp add: dialogABG_def widgetA_def widgetB_def widgetG_def hashContains_def)

subsection \<open>Hashes and sorted layouts\<close>

lemma hashValue_insert [simp]:
  "hashValue (hashInsert k v h) k' = (if k' = k then Some v else hashValue h k')"
  by (simp add: hashValue_def hashInsert_def update_conv')

lemma hashValue_remove [simp]:
  "hashValue (hashRemove k h) k' = (if k' = k then None else hashValue h k')"
  by (simp add: hashValue_def hashRemove_def delete_conv')

lemma hashContains_value: "hashContains h k = (hashValue h k \<noteq> None)"
  by (simp add: hashContains_def hashValue_def)

lemma hashKeys_value: "(k \<in> hashKeys h) = (hashValue h k \<noteq> None)"
  by (simp add: hashKeys_def hashValue_def map_of_eq_None_iff)

lemma hashKeys_insert [simp]: "hashKeys (hashInsert k v h) = insert k (hashKeys h)"
  by (auto simp: hashKeys_value split: if_splits)

lemma hashKeys_remove [simp]: "hashKeys (hashRemove k h) = hashKeys h - {k}"
  by (auto simp: hashKeys_value split: if_splits)

lemma hashIsEmpty_keys: "hashIsEmpty h = (hashKeys h = {})"
  by (simp add: hashIsEmpty_def hashKeys_def)

lemma set_hashInsert: "set (hashInsert k v h) \<subseteq> insert (k, v) (set h)"
  unfolding hashInsert_def by (induction h) auto

lemma set_hashRemove: "set (hashRemove k h) = {p \<in> set h. fst p \<noteq> k}"
  unfolding hashRemove_def by (induction h) auto

lemma hashValue_in_set: "hashValue h k = Some v \<Longrightarrow> (k, v) \<in> set h"
  unfolding hashValue_def by (rule map_of_SomeD)

lemma wellFormedI:
  assumes "layoutsOk s" "distinct (allWidgets s)"
    and "\<And>w. w \<in> set (allWidgets s) \<Longrightarrow> hashValue (contactWidgets s) (getContact w) = Some w"
    and "\<And>w. w \<in> set (allWidgets s) \<Longrightarrow> hashValue (contactChatForms s) (getContact w) \<noteq> None"
    and "\<And>w. w \<in> set (allWidgets s) \<Longrightarrow> addr w < nextAddr s"
    and "\<And>k w. (k, w) \<in> set (contactWidgets s) \<Longrightarrow> w \<in> set (allWidgets s) \<and> getContact w = k"
    and "\<And>w. w \<in> set (layoutOnline s) \<union> set (layoutOffline s) \<Longrightarrow>
              castFriendWidget (Some w) = Some w"
    and "\<And>w. w \<in> set (groupLayout s) \<Longrightarrow> castGroupWidget (Some w) = Some w"
    and "\<And>w. activeChatroomWidget s = Some w \<Longrightarrow> w \<in> set (allWidgets s)"
  shows "wellFormed s"
  unfolding wellFormed_def using assms
  by (auto simp: hashContains_value split: option.splits)

lemma wellFormedD:
  assumes "wellFormed s"
  shows "layoutsOk s" "distinct (allWidgets s)"
    and "\<And>w. w \<in> set (allWidgets s) \<Longrightarrow> hashValue (contactWidgets s) (getContact w) = Some w"
    and "\<And>w. w \<in> set (allWidgets s) \<Longrightarrow> hashValue (contactChatForms s) (getContact w) \<noteq> None"
    and "\<And>w. w \<in> set (allWidgets s) \<Longrightarrow> addr w < nextAddr s"
    and "\<And>k w. (k, w) \<in> set (contactWidgets s) \<Longrightarrow> w \<in> set (allWidgets s) \<and> getContact w = k"
    and "\<And>w. w \<in> set (layoutOnline s) \<union> set (layoutOffline s) \<Longrightarrow>
              castFriendWidget (Some w) = Some w"
    and "\<And>w. w \<in> set (groupLayout s) \<Longrightarrow> castGroupWidget (Some w) = Some w"
    and "\<And>w. activeChatroomWidget s = Some w \<Longrightarrow> w \<in> set (allWidgets s)"
  using assms unfolding wellFormed_def
  by (auto simp: hashContains_value split: option.splits)

lemma wellFormed_new: "wellFormed (newContentDialog groupsOnTop)"
  by (cases groupsOnTop)
     (simp_all add: wellFormed_def newContentDialog_def layoutsOk_def allWidgets_def)

lemma set_insert_mid: "set (a @ w # b) = insert w (set (a @ b))"
  by simp

lemma distinct_insert_mid: "distinct (a @ w # b) = (distinct (a @ b) \<and> w \<notin> set (a @ b))"
  by auto

lemma set_addSortedWidget [simp]: "set (addSortedWidget pos w xs) = insert w (set xs)"
  by (simp only: addSortedWidget_def set_insert_mid append_take_drop_id)

lemma distinct_addSortedWidget [simp]:
  "distinct (addSortedWidget pos w xs) = (distinct xs \<and> w \<notin> set xs)"
  by (simp only: addSortedWidget_def distinct_insert_mid append_take_drop_id)

lemma removeSortedWidget_absent [simp]: "w \<notin> set xs \<Longrightarrow> removeSortedWidget w xs = xs"
  by (simp add: removeSortedWidget_def remove1_idem)

lemma wellFormed_fresh:
  assumes wf: "wellFormed s" and a: "addr w = nextAddr s"
  shows "w \<notin> set (allWidgets s)" "activeChatroomWidget s \<noteq> Some w"
proof -
  show n: "w \<notin> set (allWidgets s)"
  proof
    assume "w \<in> set (allWidgets s)"
    from wellFormedD(5) [OF wf this] a show False by simp
  qed
  show "activeChatroomWidget s \<noteq> Some w"
    using wellFormedD(9) [OF wf, of w] n by blast
qed


lemma addFriend_result:
  assumes wf: "wellFormed s"
  shows "addFriend s k status form pos
         = Inr (s\<lparr>nextAddr := Suc (nextAddr s),
                  contactWidgets := hashInsert k (FriendWidget (nextAddr s) k) (contactWidgets s),
                  layoutOffline := (if status = Offline
                                    then addSortedWidget pos (FriendWidget (nextAddr s) k) (layoutOffline s)
                                    else layoutOffline s),
                  layoutOnline := (if status = Offline then layoutOnline s
                                   else addSortedWidget pos (FriendWidget (nextAddr s) k) (layoutOnline s)),
                  contactChatForms := hashInsert k form (contactChatForms s),
                  activeChatroomWidget := Some (FriendWidget (nextAddr s) k),
                  contentLayout := Some form\<rparr>)"
proof -
  let ?w = "FriendWidget (nextAddr s) k"
  have fr: "?w \<notin> set (allWidgets s)" "activeChatroomWidget s \<noteq> Some ?w"
    by (rule wellFormed_fresh [OF wf], simp)+
  then have "?w \<notin> set (layoutOnline s)" "?w \<notin> set (layoutOffline s)"
    by (simp_all add: allWidgets_def)
  with fr(2) show ?thesis
    by (cases status)
       (simp_all add: addFriend_def Let_def friendLayout_addFriendWidget_def activate_def)
qed

lemma addGroup_result:
  assumes wf: "wellFormed s"
  shows "addGroup s k form pos
         = Inr (s\<lparr>nextAddr := Suc (nextAddr s),
                  contactWidgets := hashInsert k (GroupWidget (nextAddr s) k) (contactWidgets s),
                  groupLayout := addSortedWidget pos (GroupWidget (nextAddr s) k) (groupLayout s),
                  contactChatForms := hashInsert k form (contactChatForms s),
                  activeChatroomWidget := Some (GroupWidget (nextAddr s) k),
                  contentLayout := Some form\<rparr>)"
proof -
  let ?w = "GroupWidget (nextAddr s) k"
  have fr: "?w \<notin> set (allWidgets s)" "activeChatroomWidget s \<noteq> Some ?w"
    by (rule wellFormed_fresh [OF wf], simp)+
  then show ?thesis
    by (simp add: addGroup_def Let_def activate_def)
qed

subsection \<open>Adding a contact keeps the dialog well-formed\<close>

lemma casts [simp]:
  "castFriendWidget (Some (FriendWidget a k)) = Some (FriendWidget a k)"
  "castFriendWidget (Some (GroupWidget a k)) = None"
  "castFriendWidget None = None"
  "castGroupWidget (Some (GroupWidget a k)) = Some (GroupWidget a k)"
  "castGroupWidget (Some (FriendWidget a k)) = None"
  "castGroupWidget None = None"
  by (simp_all add: castFriendWidget_def castGroupWidget_def)

lemma wellFormed_insert:
  assumes wf: "wellFormed s" and nk: "hashValue (contactWidgets s) k = None"
    and w: "getContact w = k" "addr w = nextAddr s"
    and f: "layouts s' = layouts s" "nextAddr s' = Suc (nextAddr s)"
      "contactWidgets s' = hashInsert k w (contactWidgets s)"
      "contactChatForms s' = hashInsert k form (contactChatForms s)"
      "activeChatroomWidget s' = Some w"
    and lay: "distinct (allWidgets s')" "set (allWidgets s') = insert w (set (allWidgets s))"
      "\<And>x. x \<in> set (layoutOnline s') \<union> set (layoutOffline s') \<Longrightarrow>
            castFriendWidget (Some x) = Some x"
      "\<And>x. x \<in> set (groupLayout s') \<Longrightarrow> castGroupWidget (Some x) = Some x"
  shows "wellFormed s'"
proof (rule wellFormedI)
  note d = wellFormedD [OF wf]
  have old: "getContact x \<noteq> k" if "x \<in> set (allWidgets s)" for x
    using d(3) [OF that] nk by auto
  show "layoutsOk s'" using d(1) f(1) by (simp add: layoutsOk_def)
  show "distinct (allWidgets s')" by (rule lay(1))
  show "hashValue (contactWidgets s') (getContact x) = Some x" if "x \<in> set (allWidgets s')" for x
    using that lay(2) f(3) w(1) old d(3) by auto
  show "hashValue (contactChatForms s') (getContact x) \<noteq> None" if "x \<in> set (allWidgets s')" for x
    using that lay(2) f(4) w(1) old d(4) by auto
  show "addr x < nextAddr s'" if "x \<in> set (allWidgets s')" for x
    using that lay(2) f(2) w(2) d(5) [of x] by auto
  show "x \<in> set (allWidgets s') \<and> getContact x = k'" if "(k', x) \<in> set (contactWidgets s')" for k' x
  proof -
    from that f(3) set_hashInsert [of k w "contactWidgets s"]
    have "(k', x) = (k, w) \<or> (k', x) \<in> set (contactWidgets s)" by auto
    then show ?thesis using lay(2) w(1) d(6) [of k' x] by auto
  qed
  show "castFriendWidget (Some x) = Some x"
    if "x \<in> set (layoutOnline s') \<union> set (layoutOffline s')" for x
    by (rule lay(3) [OF that])
  show "castGroupWidget (Some x) = Some x" if "x \<in> set (groupLayout s')" for x
    by (rule lay(4) [OF that])
  show "x \<in> set (allWidgets s')" if "activeChatroomWidget s' = Some x" for x
    using that f(5) lay(2) by simp
qed

lemma wellFormed_addFriend:
  assumes wf: "wellFormed s" and new: "\<not> hasContact s k"
  shows "\<exists>s'. addFriend s k status form pos = Inr s' \<and> wellFormed s'
              \<and> contactWidgets s' = hashInsert k (FriendWidget (nextAddr s) k) (contactWidgets s)"
proof -
  let ?w = "FriendWidget (nextAddr s) k"
  note r = addFriend_result [OF wf, of k status form pos]
  note d = wellFormedD [OF wf]
  have fr: "?w \<notin> set (allWidgets s)" by (rule wellFormed_fresh(1) [OF wf]) simp
  have nk: "hashValue (contactWidgets s) k = None"
    using new by (simp add: hasContact_def hashContains_value)
  have "wellFormed (s\<lparr>nextAddr := Suc (nextAddr s),
                  contactWidgets := hashInsert k ?w (contactWidgets s),
                  layoutOffline := (if status = Offline
                                    then addSortedWidget pos ?w (layoutOffline s)
                                    else layoutOffline s),
                  layoutOnline := (if status = Offline then layoutOnline s
                                   else addSortedWidget pos ?w (layoutOnline s)),
                  contactChatForms := hashInsert k form (contactChatForms s),
                  activeChatroomWidget := Some ?w,
                  contentLayout := Some form\<rparr>)"
  proof (rule wellFormed_insert [OF wf nk, of ?w _ form])
    show "distinct (allWidgets (s\<lparr>nextAddr := Suc (nextAddr s),
                  contactWidgets := hashInsert k ?w (contactWidgets s),
                  layoutOffline := (if status = Offline
                                    then addSortedWidget pos ?w (layoutOffline s)
                                    else layoutOffline s),
                  layoutOnline := (if status = Offline then layoutOnline s
                                   else addSortedWidget pos ?w (layoutOnline s)),
                  contactChatForms := hashInsert k form (contactChatForms s),
                  activeChatroomWidget := Some ?w,
                  contentLayout := Some form\<rparr>))"
      using d(2) fr by (auto simp: allWidgets_def)
  qed (use d(7,8) in \<open>auto simp: allWidgets_def split: if_splits\<close>)
  with r show ?thesis by simp
qed

lemma wellFormed_addGroup:
  assumes wf: "wellFormed s" and new: "\<not> hasContact s k"
  shows "\<exists>s'. addGroup s k form pos = Inr s' \<and> wellFormed s'
              \<and> contactWidgets s' = hashInsert k (GroupWidget (nextAddr s) k) (contactWidgets s)"
proof -
  let ?w = "GroupWidget (nextAddr s) k"
  note r = addGroup_result [OF wf, of k form pos]
  note d = wellFormedD [OF wf]
  have fr: "?w \<notin> set (allWidgets s)" by (rule wellFormed_fresh(1) [OF wf]) simp
  have nk: "hashValue (contactWidgets s) k = None"
    using new by (simp add: hasContact_def hashContains_value)
  have "wellFormed (s\<lparr>nextAddr := Suc (nextAddr s),
                  contactWidgets := hashInsert k ?w (contactWidgets s),
                  groupLayout := addSortedWidget pos ?w (groupLayout s),
                  contactChatForms := hashInsert k form (contactChatForms s),
                  activeChatroomWidget := Some ?w,
                  contentLayout := Some form\<rparr>)"
  proof (rule wellFormed_insert [OF wf nk, of ?w _ form])
    show "distinct (allWidgets (s\<lparr>nextAddr := Suc (nextAddr s),
                  contactWidgets := hashInsert k ?w (contactWidgets s),
                  groupLayout := addSortedWidget pos ?w (groupLayout s),
                  contactChatForms := hashInsert k form (contactChatForms s),
                  activeChatroomWidget := Some ?w,
                  contentLayout := Some form\<rparr>))"
      using d(2) fr by (auto simp: allWidgets_def)
  qed (use d(7,8) in \<open>auto simp: allWidgets_def split: if_splits\<close>)
  with r show ?thesis by simp
qed

subsection \<open>Removing a contact keeps the dialog well-formed\<close>

lemma remove1_three:
  assumes "distinct (a @ b @ c)"
  shows "distinct (remove1 w a @ remove1 w b @ remove1 w c)"
    and "set (remove1 w a @ remove1 w b @ remove1 w c) = set (a @ b @ c) - {w}"
proof -
  have da: "distinct a" "distinct b" "distinct c"
    and disj: "set a \<inter> set b = {}" "set a \<inter> set c = {}" "set b \<inter> set c = {}"
    using assms by auto
  have s: "set (remove1 w a) = set a - {w}" "set (remove1 w b) = set b - {w}"
    "set (remove1 w c) = set c - {w}"
    using da by (simp_all add: set_remove1_eq)
  have d': "distinct (remove1 w a)" "distinct (remove1 w b)" "distinct (remove1 w c)"
    using da by simp_all
  show "distinct (remove1 w a @ remove1 w b @ remove1 w c)"
    unfolding distinct_append set_append s using d' disj by blast
  show "set (remove1 w a @ remove1 w b @ remove1 w c) = set (a @ b @ c) - {w}"
    unfolding set_append s by blast
qed

lemma wellFormed_keys:
  assumes wf: "wellFormed s"
  shows "hashKeys (contactWidgets s) = getContact ` set (allWidgets s)"
proof
  note d = wellFormedD [OF wf]
  show "hashKeys (contactWidgets s) \<subseteq> getContact ` set (allWidgets s)"
  proof
    fix k assume "k \<in> hashKeys (contactWidgets s)"
    then obtain x where "(k, x) \<in> set (contactWidgets s)" by (auto simp: hashKeys_def)
    from d(6) [OF this] show "k \<in> getContact ` set (allWidgets s)" by auto
  qed
  show "getContact ` set (allWidgets s) \<subseteq> hashKeys (contactWidgets s)"
    using d(3) by (auto simp: hashKeys_value)
qed

lemma wellFormed_inj:
  assumes wf: "wellFormed s"
  shows "inj_on getContact (set (allWidgets s))"
proof (rule inj_onI)
  fix x y assume "x \<in> set (allWidgets s)" "y \<in> set (allWidgets s)" "getContact x = getContact y"
  with wellFormedD(3) [OF wf] show "x = y" by (metis option.inject)
qed

lemma wellFormed_entry:
  assumes wf: "wellFormed s" and hv: "hashValue (contactWidgets s) k = Some w"
  shows "w \<in> set (allWidgets s)" "getContact w = k"
  using wellFormedD(6) [OF wf hashValue_in_set [OF hv]] by simp_all

lemma only_entry:
  assumes wf: "wellFormed s" and hv: "hashValue (contactWidgets s) k = Some w"
  shows "(hashKeys (contactWidgets s) = {k}) = (set (allWidgets s) = {w})"
proof
  note e = wellFormed_entry [OF wf hv]
  assume K: "hashKeys (contactWidgets s) = {k}"
  have i: "getContact ` set (allWidgets s) = {k}"
    unfolding wellFormed_keys [OF wf, symmetric] by (rule K)
  have "x = w" if x: "x \<in> set (allWidgets s)" for x
  proof -
    from x have "getContact x \<in> getContact ` set (allWidgets s)" by (rule imageI)
    then have "getContact x = getContact w" unfolding i e(2) by simp
    then show ?thesis by (rule inj_onD [OF wellFormed_inj [OF wf] _ x e(1)])
  qed
  then show "set (allWidgets s) = {w}" using e(1) by blast
next
  note e = wellFormed_entry [OF wf hv]
  assume A: "set (allWidgets s) = {w}"
  show "hashKeys (contactWidgets s) = {k}"
    unfolding wellFormed_keys [OF wf] A using e(2) by simp
qed

lemma wellFormed_delete:
  assumes wf: "wellFormed s" and hv: "hashValue (contactWidgets s) k = Some w"
    and f: "layouts s' = layouts s" "nextAddr s' = nextAddr s"
      "contactWidgets s' = hashRemove k (contactWidgets s)"
      "contactChatForms s' = hashRemove k (contactChatForms s)"
    and lay: "layoutOnline s' = remove1 w (layoutOnline s)"
      "layoutOffline s' = remove1 w (layoutOffline s)"
      "groupLayout s' = remove1 w (groupLayout s)"
    and act: "\<And>x. activeChatroomWidget s' = Some x \<Longrightarrow> activeChatroomWidget s = Some x \<and> x \<noteq> w"
  shows "wellFormed s'"
proof (rule wellFormedI)
  note d = wellFormedD [OF wf]
  note e = wellFormed_entry [OF wf hv]
  have all: "distinct (allWidgets s')" "set (allWidgets s') = set (allWidgets s) - {w}"
    using remove1_three [of "layoutOnline s" "groupLayout s" "layoutOffline s" w] d(2) lay
    by (simp_all add: allWidgets_def)
  have other: "getContact x \<noteq> k" if "x \<in> set (allWidgets s')" for x
  proof
    assume "getContact x = k"
    with that all(2) d(3) [of x] hv show False by auto
  qed
  show "layoutsOk s'" using d(1) f(1) by (simp add: layoutsOk_def)
  show "distinct (allWidgets s')" by (rule all(1))
  show "hashValue (contactWidgets s') (getContact x) = Some x" if "x \<in> set (allWidgets s')" for x
    using that other [OF that] all(2) f(3) d(3) [of x] by simp
  show "hashValue (contactChatForms s') (getContact x) \<noteq> None" if "x \<in> set (allWidgets s')" for x
    using that other [OF that] all(2) f(4) d(4) [of x] by simp
  show "addr x < nextAddr s'" if "x \<in> set (allWidgets s')" for x
    using that all(2) f(2) d(5) [of x] by simp
  show "x \<in> set (allWidgets s') \<and> getContact x = k'" if "(k', x) \<in> set (contactWidgets s')" for k' x
  proof -
    from that f(3) have m: "(k', x) \<in> set (contactWidgets s)" "k' \<noteq> k"
      by (auto simp: set_hashRemove)
    from d(6) [OF m(1)] m(2) e(2) all(2) show ?thesis by auto
  qed
  show "castFriendWidget (Some x) = Some x"
    if "x \<in> set (layoutOnline s') \<union> set (layoutOffline s')" for x
  proof -
    from that lay have "x \<in> set (layoutOnline s) \<union> set (layoutOffline s)"
      using notin_set_remove1 [of x _ w] by fastforce
    then show ?thesis by (rule d(7))
  qed
  show "castGroupWidget (Some x) = Some x" if "x \<in> set (groupLayout s')" for x
  proof -
    from that lay have "x \<in> set (groupLayout s)"
      using notin_set_remove1 [of x _ w] by fastforce
    then show ?thesis by (rule d(8))
  qed
  show "x \<in> set (allWidgets s')" if "activeChatroomWidget s' = Some x" for x
    using act [OF that] d(9) [of x] all(2) by simp
qed

lemma finishRemove_fields:
  "layouts (finishRemove s k) = layouts s"
  "nextAddr (finishRemove s k) = nextAddr s"
  "groupchatPosition (finishRemove s k) = groupchatPosition s"
  "contactWidgets (finishRemove s k) = hashRemove k (contactWidgets s)"
  "contactChatForms (finishRemove s k) = hashRemove k (contactChatForms s)"
  "layoutOnline (finishRemove s k) = layoutOnline s"
  "layoutOffline (finishRemove s k) = layoutOffline s"
  "groupLayout (finishRemove s k) = groupLayout s"
  "activeChatroomWidget (finishRemove s k)
     = (if chatroomCount s = 0 then None else activeChatroomWidget s)"
  "closeCalled (finishRemove s k)
     = (closeCalled s \<or> hashIsEmpty (hashRemove k (contactWidgets s)))"
  "deleteLaterCalled (finishRemove s k) = (deleteLaterCalled s \<or> chatroomCount s = 0)"
  by (simp_all add: finishRemove_def closeIfEmpty_def Let_def)

lemma int_sum_zero:
  fixes a b c :: nat
  shows "(int a + int b + int c = 0) = (a = 0 \<and> c = 0 \<and> b = 0)"
  by linarith

lemma chatroomCount_zero: "(chatroomCount s = 0) = (allWidgets s = [])"
  by (simp add: chatroomCount_def friendTotalCount_def layoutCount_def layoutItems_def
      allWidgets_def int_sum_zero)

lemma remove_tail:
  assumes wf: "wellFormed s1" and hv: "hashValue (contactWidgets s1) k = Some w"
    and act: "activeChatroomWidget s1 = Some w \<Longrightarrow> set (allWidgets s1) = {w}"
    and f: "layouts s2 = layouts s1" "nextAddr s2 = nextAddr s1"
      "contactWidgets s2 = contactWidgets s1" "contactChatForms s2 = contactChatForms s1"
      "activeChatroomWidget s2 = activeChatroomWidget s1"
      "closeCalled s2 = closeCalled s1" "deleteLaterCalled s2 = deleteLaterCalled s1"
    and lay: "layoutOnline s2 = remove1 w (layoutOnline s1)"
      "layoutOffline s2 = remove1 w (layoutOffline s1)"
      "groupLayout s2 = remove1 w (groupLayout s1)"
  shows "wellFormed (finishRemove s2 k)"
    and "contactWidgets (finishRemove s2 k) = hashRemove k (contactWidgets s1)"
    and "activeChatroomWidget (finishRemove s2 k)
         = (if hashKeys (contactWidgets s1) = {k} then None else activeChatroomWidget s1)"
    and "activeChatroomWidget (finishRemove s2 k) \<noteq> Some w"
    and "closeCalled (finishRemove s2 k) = (closeCalled s1 \<or> hashKeys (contactWidgets s1) = {k})"
    and "deleteLaterCalled (finishRemove s2 k)
         = (deleteLaterCalled s1 \<or> hashKeys (contactWidgets s1) = {k})"
proof -
  note d = wellFormedD [OF wf]
  note e = wellFormed_entry [OF wf hv]
  note ff = finishRemove_fields [of s2 k]
  have all2: "set (allWidgets s2) = set (allWidgets s1) - {w}"
    using remove1_three(2) [of "layoutOnline s1" "groupLayout s1" "layoutOffline s1" w] d(2) lay
    by (simp add: allWidgets_def)
  have "(allWidgets s2 = []) = (set (allWidgets s1) = {w})"
  proof
    assume "allWidgets s2 = []"
    then have "set (allWidgets s1) - {w} = {}" using all2 by simp
    with e(1) show "set (allWidgets s1) = {w}" by blast
  next
    assume "set (allWidgets s1) = {w}"
    then have "set (allWidgets s2) = {}" unfolding all2 by simp
    then show "allWidgets s2 = []" by simp
  qed
  then have empty: "(chatroomCount s2 = 0) = (hashKeys (contactWidgets s1) = {k})"
    unfolding chatroomCount_zero only_entry [OF wf hv] .
  have kin: "k \<in> hashKeys (contactWidgets s1)" using hv by (simp add: hashKeys_value)
  have hempty: "hashIsEmpty (hashRemove k (contactWidgets s1)) = (hashKeys (contactWidgets s1) = {k})"
    unfolding hashIsEmpty_keys hashKeys_remove using kin by blast
  show "contactWidgets (finishRemove s2 k) = hashRemove k (contactWidgets s1)"
    unfolding ff f ..
  show a': "activeChatroomWidget (finishRemove s2 k)
         = (if hashKeys (contactWidgets s1) = {k} then None else activeChatroomWidget s1)"
    unfolding ff empty f ..
  show nw: "activeChatroomWidget (finishRemove s2 k) \<noteq> Some w"
  proof
    assume h: "activeChatroomWidget (finishRemove s2 k) = Some w"
    show False
    proof (cases "hashKeys (contactWidgets s1) = {k}")
      case True
      with h a' show False by simp
    next
      case False
      with h a' have "activeChatroomWidget s1 = Some w" by simp
      from act [OF this] False only_entry [OF wf hv] show False by simp
    qed
  qed
  show "closeCalled (finishRemove s2 k) = (closeCalled s1 \<or> hashKeys (contactWidgets s1) = {k})"
    unfolding ff f hempty ..
  show "deleteLaterCalled (finishRemove s2 k)
         = (deleteLaterCalled s1 \<or> hashKeys (contactWidgets s1) = {k})"
    unfolding ff empty f ..
  show "wellFormed (finishRemove s2 k)"
  proof (rule wellFormed_delete [OF wf hv])
    show "activeChatroomWidget s1 = Some x \<and> x \<noteq> w"
      if "activeChatroomWidget (finishRemove s2 k) = Some x" for x
    proof
      show "activeChatroomWidget s1 = Some x" using that a' by (simp split: if_splits)
      show "x \<noteq> w" using that nw by auto
    qed
  qed (simp_all add: ff f lay)
qed

lemma singleton_list:
  assumes "length xs = 1" "w \<in> set xs"
  shows "set xs = {w}"
proof -
  from assms(1) obtain x where "xs = [x]" by (cases xs) auto
  with assms(2) show ?thesis by simp
qed

lemma cycle_before_remove:
  assumes wf: "wellFormed s" and hv: "hashValue (contactWidgets s) k = Some w"
  shows "\<exists>s1. (if activeChatroomWidget s = Some w then cycleContacts s True False
               else Some (Inr s)) = Some (Inr s1)
           \<and> (\<exists>a y. s1 = s\<lparr>activeChatroomWidget := a, contentLayout := y\<rparr>)
           \<and> wellFormed s1
           \<and> (activeChatroomWidget s1 = Some w \<longrightarrow> set (allWidgets s) = {w})
           \<and> (activeChatroomWidget s = Some w \<longrightarrow> activeChatroomWidget s1 \<noteq> None)"
proof (cases "activeChatroomWidget s = Some w")
  case False
  have "s = s\<lparr>activeChatroomWidget := activeChatroomWidget s, contentLayout := contentLayout s\<rparr>"
    by simp
  then have "\<exists>a y. s = s\<lparr>activeChatroomWidget := a, contentLayout := y\<rparr>" by blast
  with False wf show ?thesis by simp
next
  case act: True
  note p = wellFormed_parts [OF wf]
  note e = wellFormed_entry [OF wf hv]
  note R = ring_allWidgets [OF p(1)]
  define n where "n = length (ring s)"
  define dl where "dl = (if currentDirection s True False then 1 else n - 1)"
  define q where "q = (ringPos s + dl) mod n"
  from cycleContacts_frame [OF p(1) act e(1) p(3), of True False] obtain y where
    r: "cycleContacts s True False
        = Some (Inr (s\<lparr>activeChatroomWidget := Some (ring s ! q), contentLayout := y\<rparr>))"
    unfolding q_def dl_def n_def by blast
  let ?s1 = "s\<lparr>activeChatroomWidget := Some (ring s ! q), contentLayout := y\<rparr>"
  from ringPos_active [OF p(1) act e(1)] have pos: "ringPos s < n" "ring s ! ringPos s = w"
    unfolding n_def by simp_all
  have n0: "0 < n" using pos(1) by arith
  have q: "q < n" using n0 by (simp add: q_def)
  have m: "ring s ! q \<in> set (allWidgets s)" using q R(1) nth_mem unfolding n_def by blast
  have wf1: "wellFormed ?s1" by (rule wellFormed_frame [OF wf m])
  have one: "set (allWidgets s) = {w}" if "ring s ! q = w"
  proof -
    have dr: "distinct (ring s)" using R(2) p(2) by simp
    have "ring s ! q = ring s ! ringPos s" using that pos(2) by simp
    then have qp: "q = ringPos s"
      using q pos(1) dr unfolding n_def by (simp add: nth_eq_iff_index_eq)
    have "\<not> 2 \<le> n"
    proof
      assume "2 \<le> n"
      then have "0 < dl" "dl < n" by (auto simp: dl_def)
      from shift_mod_neq [OF pos(1) this] qp show False by (simp add: q_def)
    qed
    with n0 have "length (allWidgets s) = 1" using R(3) unfolding n_def by arith
    then show ?thesis using e(1) by (rule singleton_list)
  qed
  have "\<exists>a y'. ?s1 = s\<lparr>activeChatroomWidget := a, contentLayout := y'\<rparr>" by blast
  with r act wf1 one show ?thesis by simp
qed

lemma cast_exclusive:
  "castFriendWidget (Some w) = Some w \<Longrightarrow> castGroupWidget (Some w) \<noteq> Some w"
  "castGroupWidget (Some w) = Some w \<Longrightarrow> castFriendWidget (Some w) \<noteq> Some w"
  by (cases w; simp)+

lemma removeFriend_wellFormed:
  assumes wf: "wellFormed s" and hv: "hashValue (contactWidgets s) k = Some w"
    and fw: "castFriendWidget (Some w) = Some w"
  shows "\<exists>s1 s'. (if activeChatroomWidget s = Some w then cycleContacts s True False
                  else Some (Inr s)) = Some (Inr s1)
           \<and> removeFriend s k = Some (Inr s') \<and> wellFormed s'
           \<and> contactWidgets s' = hashRemove k (contactWidgets s)
           \<and> activeChatroomWidget s'
               = (if hashKeys (contactWidgets s) = {k} then None else activeChatroomWidget s1)
           \<and> activeChatroomWidget s' \<noteq> Some w
           \<and> closeCalled s' = (closeCalled s \<or> hashKeys (contactWidgets s) = {k})
           \<and> deleteLaterCalled s' = (deleteLaterCalled s \<or> hashKeys (contactWidgets s) = {k})
           \<and> (activeChatroomWidget s = Some w \<longrightarrow> activeChatroomWidget s1 \<noteq> None)"
proof -
  from cycle_before_remove [OF wf hv] obtain s1 a y where
    c: "(if activeChatroomWidget s = Some w then cycleContacts s True False
         else Some (Inr s)) = Some (Inr s1)"
    and s1: "s1 = s\<lparr>activeChatroomWidget := a, contentLayout := y\<rparr>"
    and wf1: "wellFormed s1"
    and a1: "activeChatroomWidget s1 = Some w \<longrightarrow> set (allWidgets s) = {w}"
    and a2: "activeChatroomWidget s = Some w \<longrightarrow> activeChatroomWidget s1 \<noteq> None"
    by blast
  have hv1: "hashValue (contactWidgets s1) k = Some w" using hv s1 by simp
  have all1: "allWidgets s1 = allWidgets s" using s1 by simp
  have cw1: "contactWidgets s1 = contactWidgets s" "closeCalled s1 = closeCalled s"
    "deleteLaterCalled s1 = deleteLaterCalled s" using s1 by simp_all
  define s2 where "s2 = friendLayout_removeFriendWidget
                          (friendLayout_removeFriendWidget s1 w Offline) w Online"
  have ng: "w \<notin> set (groupLayout s1)"
    using wellFormedD(8) [OF wf1, of w] cast_exclusive(1) [OF fw] by blast
  have f: "layouts s2 = layouts s1" "nextAddr s2 = nextAddr s1"
      "contactWidgets s2 = contactWidgets s1" "contactChatForms s2 = contactChatForms s1"
      "activeChatroomWidget s2 = activeChatroomWidget s1"
      "closeCalled s2 = closeCalled s1" "deleteLaterCalled s2 = deleteLaterCalled s1"
      "layoutOnline s2 = remove1 w (layoutOnline s1)"
      "layoutOffline s2 = remove1 w (layoutOffline s1)"
      "groupLayout s2 = remove1 w (groupLayout s1)"
    using ng by (simp_all add: s2_def friendLayout_removeFriendWidget_def removeSortedWidget_def
        remove1_idem)
  have act: "activeChatroomWidget s1 = Some w \<Longrightarrow> set (allWidgets s1) = {w}"
    using a1 all1 by simp
  note t = remove_tail [OF wf1 hv1 act f]
  have r: "removeFriend s k = Some (Inr (finishRemove s2 k))"
    using c hv fw by (simp add: removeFriend_def andThen_def s2_def Let_def)
  show ?thesis using c r t a2 unfolding cw1 by blast
qed

lemma removeGroup_wellFormed:
  assumes wf: "wellFormed s" and hv: "hashValue (contactWidgets s) k = Some w"
    and gw: "castGroupWidget (Some w) = Some w"
  shows "\<exists>s1 s'. (if activeChatroomWidget s = Some w then cycleContacts s True False
                  else Some (Inr s)) = Some (Inr s1)
           \<and> removeGroup s k = Some (Inr s') \<and> wellFormed s'
           \<and> contactWidgets s' = hashRemove k (contactWidgets s)
           \<and> activeChatroomWidget s'
               = (if hashKeys (contactWidgets s) = {k} then None else activeChatroomWidget s1)
           \<and> activeChatroomWidget s' \<noteq> Some w
           \<and> closeCalled s' = (closeCalled s \<or> hashKeys (contactWidgets s) = {k})
           \<and> deleteLaterCalled s' = (deleteLaterCalled s \<or> hashKeys (contactWidgets s) = {k})
           \<and> (activeChatroomWidget s = Some w \<longrightarrow> activeChatroomWidget s1 \<noteq> None)"
proof -
  from cycle_before_remove [OF wf hv] obtain s1 a y where
    c: "(if activeChatroomWidget s = Some w then cycleContacts s True False
         else Some (Inr s)) = Some (Inr s1)"
    and s1: "s1 = s\<lparr>activeChatroomWidget := a, contentLayout := y\<rparr>"
    and wf1: "wellFormed s1"
    and a1: "activeChatroomWidget s1 = Some w \<longrightarrow> set (allWidgets s) = {w}"
    and a2: "activeChatroomWidget s = Some w \<longrightarrow> activeChatroomWidget s1 \<noteq> None"
    by blast
  have hv1: "hashValue (contactWidgets s1) k = Some w" using hv s1 by simp
  have all1: "allWidgets s1 = allWidgets s" using s1 by simp
  have cw1: "contactWidgets s1 = contactWidgets s" "closeCalled s1 = closeCalled s"
    "deleteLaterCalled s1 = deleteLaterCalled s" using s1 by simp_all
  define s2 where "s2 = s1\<lparr>groupLayout := removeSortedWidget w (groupLayout s1)\<rparr>"
  have nf: "w \<notin> set (layoutOnline s1)" "w \<notin> set (layoutOffline s1)"
    using wellFormedD(7) [OF wf1, of w] cast_exclusive(2) [OF gw] by blast+
  have f: "layouts s2 = layouts s1" "nextAddr s2 = nextAddr s1"
      "contactWidgets s2 = contactWidgets s1" "contactChatForms s2 = contactChatForms s1"
      "activeChatroomWidget s2 = activeChatroomWidget s1"
      "closeCalled s2 = closeCalled s1" "deleteLaterCalled s2 = deleteLaterCalled s1"
      "layoutOnline s2 = remove1 w (layoutOnline s1)"
      "layoutOffline s2 = remove1 w (layoutOffline s1)"
      "groupLayout s2 = remove1 w (groupLayout s1)"
    using nf by (simp_all add: s2_def removeSortedWidget_def remove1_idem)
  have act: "activeChatroomWidget s1 = Some w \<Longrightarrow> set (allWidgets s1) = {w}"
    using a1 all1 by simp
  note t = remove_tail [OF wf1 hv1 act f]
  have r: "removeGroup s k = Some (Inr (finishRemove s2 k))"
    using c hv gw by (simp add: removeGroup_def andThen_def s2_def Let_def)
  show ?thesis using c r t a2 unfolding cw1 by blast
qed

subsection \<open>Removing the active contact, and closing\<close>







text \<open>
  The example dialogs are what the operations produce from a new dialog: one
  \<^verbatim>\<open>addFriend\<close> for the dialog of one contact, three adds and a focus request for the
  dialog of the scenario.
\<close>

lemma dialogs_reachable:
  "addFriend (newContentDialog False) ''A'' Online 10 0 = Inr dialogA"
  "andThen (runOperations (newContentDialog False)
              [AddFriend ''A'' Online 10 0, AddFriend ''B'' Offline 11 0, AddGroup ''G'' 12 0])
     (\<lambda>s. Some (focusContact s ''A'')) = Some (Inr dialogABG)"
  by code_simp+



subsection \<open>The managed ids after a sequence of operations\<close>

lemma activate_contactWidgets:
  "activate s w = Inr s' \<Longrightarrow> contactWidgets s' = contactWidgets s"
  by (auto simp: activate_def split: if_splits option.splits)

lemma cycleContacts_contactWidgets:
  assumes "cycleContacts s f inv' = Some (Inr s1)"
  shows "contactWidgets s1 = contactWidgets s"
proof (cases "getCurrentLayout s")
  case (Pair l i)
  show ?thesis
  proof (cases l)
    case None
    with Pair assms show ?thesis by (simp add: cycleContacts_def)
  next
    case (Some cur)
    show ?thesis
    proof (cases "i = - 1")
      case True
      with Pair Some assms show ?thesis by (simp add: cycleContacts_def)
    next
      case False
      with Pair Some assms show ?thesis
        by (auto simp: cycleContacts_def Let_def dest: activate_contactWidgets
            split: option.splits sum.splits prod.splits if_splits)
    qed
  qed
qed

lemma addFriend_contactWidgets:
  "addFriend s k status form pos = Inr s' \<Longrightarrow>
   contactWidgets s' = hashInsert k (FriendWidget (nextAddr s) k) (contactWidgets s)"
  by (cases status)
     (auto simp: addFriend_def Let_def friendLayout_addFriendWidget_def
       dest!: activate_contactWidgets)

lemma addGroup_contactWidgets:
  "addGroup s k form pos = Inr s' \<Longrightarrow>
   contactWidgets s' = hashInsert k (GroupWidget (nextAddr s) k) (contactWidgets s)"
  by (auto simp: addGroup_def Let_def dest!: activate_contactWidgets)

lemma andThen_Some:
  "andThen r f = Some (Inr y) \<Longrightarrow> \<exists>x. r = Some (Inr x) \<and> f x = Some (Inr y)"
  by (auto simp: andThen_def split: option.splits sum.splits)

lemma finishRemove_contactWidgets:
  "contactWidgets (finishRemove s k) = hashRemove k (contactWidgets s)"
  by (rule finishRemove_fields(4))

lemma removeFriend_contactWidgets:
  assumes "removeFriend s k = Some (Inr s')"
  shows "contactWidgets s' = hashRemove k (contactWidgets s)"
proof -
  from assms obtain w where
    a: "andThen (if activeChatroomWidget s = Some w then cycleContacts s True False
                 else Some (Inr s))
          (\<lambda>s. let s = friendLayout_removeFriendWidget s w Offline;
                   s = friendLayout_removeFriendWidget s w Online
               in Some (Inr (finishRemove s k))) = Some (Inr s')"
    by (auto simp: removeFriend_def split: option.splits)
  from andThen_Some [OF a] obtain s1 where
    c: "(if activeChatroomWidget s = Some w then cycleContacts s True False
         else Some (Inr s)) = Some (Inr s1)"
    and r: "s' = finishRemove (friendLayout_removeFriendWidget
                (friendLayout_removeFriendWidget s1 w Offline) w Online) k"
    by (auto simp: Let_def)
  have "contactWidgets s1 = contactWidgets s"
    using c cycleContacts_contactWidgets by (auto split: if_splits)
  then show ?thesis unfolding r finishRemove_contactWidgets
    by (simp add: friendLayout_removeFriendWidget_def)
qed

lemma removeGroup_contactWidgets:
  assumes "removeGroup s k = Some (Inr s')"
  shows "contactWidgets s' = hashRemove k (contactWidgets s)"
proof -
  from assms obtain w where
    a: "andThen (if activeChatroomWidget s = Some w then cycleContacts s True False
                 else Some (Inr s))
          (\<lambda>s. let s = s\<lparr>groupLayout := removeSortedWidget w (groupLayout s)\<rparr>
               in Some (Inr (finishRemove s k))) = Some (Inr s')"
    by (auto simp: removeGroup_def split: option.splits)
  from andThen_Some [OF a] obtain s1 where
    c: "(if activeChatroomWidget s = Some w then cycleContacts s True False
         else Some (Inr s)) = Some (Inr s1)"
    and r: "s' = finishRemove (s1\<lparr>groupLayout := removeSortedWidget w (groupLayout s1)\<rparr>) k"
    by (auto simp: Let_def)
  have "contactWidgets s1 = contactWidgets s"
    using c cycleContacts_contactWidgets by (auto split: if_splits)
  then show ?thesis unfolding r finishRemove_contactWidgets by simp
qed

lemma applyOperation_keys:
  assumes "applyOperation s operation = Some (Inr s')"
  shows "managedAfter (hashKeys (contactWidgets s')) rest
         = managedAfter (hashKeys (contactWidgets s)) (operation # rest)"
proof (cases operation)
  case (AddFriend k status form pos)
  with assms have "addFriend s k status form pos = Inr s'" by (simp add: applyOperation_def)
  from addFriend_contactWidgets [OF this] AddFriend show ?thesis by simp
next
  case (AddGroup k form pos)
  with assms have "addGroup s k form pos = Inr s'" by (simp add: applyOperation_def)
  from addGroup_contactWidgets [OF this] AddGroup show ?thesis by simp
next
  case (RemoveFriend k)
  with assms have "removeFriend s k = Some (Inr s')" by (simp add: applyOperation_def)
  from removeFriend_contactWidgets [OF this] RemoveFriend show ?thesis by simp
next
  case (RemoveGroup k)
  with assms have "removeGroup s k = Some (Inr s')" by (simp add: applyOperation_def)
  from removeGroup_contactWidgets [OF this] RemoveGroup show ?thesis by simp
qed

lemma runOperations_keys:
  "runOperations s ops = Some (Inr s') \<Longrightarrow>
   hashKeys (contactWidgets s') = managedAfter (hashKeys (contactWidgets s)) ops"
proof (induction ops arbitrary: s)
  case Nil
  then show ?case by simp
next
  case (Cons operation rest)
  from Cons.prems andThen_Some obtain s1 where
    a: "applyOperation s operation = Some (Inr s1)" and r: "runOperations s1 rest = Some (Inr s')"
    by (fastforce simp: )
  from Cons.IH [OF r] applyOperation_keys [OF a] show ?case by simp
qed

lemma cast_cases:
  "castFriendWidget (Some w) = Some w \<or> castGroupWidget (Some w) = Some w"
  by (cases w) simp_all

lemma cast_Some:
  "castFriendWidget x \<noteq> None \<Longrightarrow> \<exists>w. x = Some w \<and> castFriendWidget (Some w) = Some w"
  "castGroupWidget x \<noteq> None \<Longrightarrow> \<exists>w. x = Some w \<and> castGroupWidget (Some w) = Some w"
  by (auto simp: castFriendWidget_def castGroupWidget_def
      split: option.splits GenericChatroomWidget.splits)

lemma kinds_unmanaged:
  assumes "k \<notin> friendKeys s" "k \<notin> groupKeys s"
  shows "\<not> hasContact s k"
proof
  assume "hasContact s k"
  then obtain w where w: "hashValue (contactWidgets s) k = Some w"
    by (auto simp: hasContact_def hashContains_value)
  with cast_cases [of w] assms show False by (auto simp: friendKeys_def groupKeys_def)
qed

lemma kinds_insert:
  assumes "\<not> hasContact s k"
  shows "friendKeys (s'\<lparr>contactWidgets := hashInsert k (FriendWidget a k) (contactWidgets s)\<rparr>)
         = insert k (friendKeys s)"
    and "groupKeys (s'\<lparr>contactWidgets := hashInsert k (FriendWidget a k) (contactWidgets s)\<rparr>)
         = groupKeys s"
    and "friendKeys (s'\<lparr>contactWidgets := hashInsert k (GroupWidget a k) (contactWidgets s)\<rparr>)
         = friendKeys s"
    and "groupKeys (s'\<lparr>contactWidgets := hashInsert k (GroupWidget a k) (contactWidgets s)\<rparr>)
         = insert k (groupKeys s)"
  using assms
  by (auto simp: friendKeys_def groupKeys_def hasContact_def hashContains_value split: if_splits)

lemma kinds_remove:
  assumes "contactWidgets s' = hashRemove k (contactWidgets s)"
    and "hashValue (contactWidgets s) k = Some w"
  shows "castFriendWidget (Some w) = Some w \<Longrightarrow>
           friendKeys s' = friendKeys s - {k} \<and> groupKeys s' = groupKeys s"
    and "castGroupWidget (Some w) = Some w \<Longrightarrow>
           friendKeys s' = friendKeys s \<and> groupKeys s' = groupKeys s - {k}"
  using assms
  by (cases w; auto simp: friendKeys_def groupKeys_def split: if_splits)+

lemma runOperations_admissible:
  "wellFormed s \<Longrightarrow> admissible (friendKeys s) (groupKeys s) ops \<Longrightarrow>
   \<exists>s'. runOperations s ops = Some (Inr s') \<and> wellFormed s'"
proof (induction ops arbitrary: s)
  case Nil
  then show ?case by simp
next
  case (Cons operation rest)
  have step: ?case
    if a: "applyOperation s operation = Some (Inr s1)" and wf1: "wellFormed s1"
      and ad: "admissible (friendKeys s1) (groupKeys s1) rest" for s1
  proof -
    from Cons.IH [OF wf1 ad] obtain s' where "runOperations s1 rest = Some (Inr s')" "wellFormed s'"
      by blast
    with a show ?thesis by (auto simp: andThen_def)
  qed
  show ?case
  proof (cases operation)
    case (AddFriend k status form pos)
    with Cons.prems(2) have nk: "k \<notin> friendKeys s" "k \<notin> groupKeys s"
      and ad: "admissible (insert k (friendKeys s)) (groupKeys s) rest" by simp_all
    note un = kinds_unmanaged [OF nk]
    from wellFormed_addFriend [OF Cons.prems(1) un, of status form pos] obtain s1 where
      r: "addFriend s k status form pos = Inr s1" and wf1: "wellFormed s1"
      and cw: "contactWidgets s1 = hashInsert k (FriendWidget (nextAddr s) k) (contactWidgets s)"
      by blast
    have "s1 = s1\<lparr>contactWidgets := hashInsert k (FriendWidget (nextAddr s) k) (contactWidgets s)\<rparr>"
      using cw by simp
    with kinds_insert(1,2) [OF un, where s' = s1 and a = "nextAddr s"]
    have "friendKeys s1 = insert k (friendKeys s)" "groupKeys s1 = groupKeys s" by simp_all
    with ad have "admissible (friendKeys s1) (groupKeys s1) rest" by simp
    with r wf1 AddFriend show ?thesis by (intro step [of s1]) (simp_all add: applyOperation_def)
  next
    case (AddGroup k form pos)
    with Cons.prems(2) have nk: "k \<notin> friendKeys s" "k \<notin> groupKeys s"
      and ad: "admissible (friendKeys s) (insert k (groupKeys s)) rest" by simp_all
    note un = kinds_unmanaged [OF nk]
    from wellFormed_addGroup [OF Cons.prems(1) un, of form pos] obtain s1 where
      r: "addGroup s k form pos = Inr s1" and wf1: "wellFormed s1"
      and cw: "contactWidgets s1 = hashInsert k (GroupWidget (nextAddr s) k) (contactWidgets s)"
      by blast
    have "s1 = s1\<lparr>contactWidgets := hashInsert k (GroupWidget (nextAddr s) k) (contactWidgets s)\<rparr>"
      using cw by simp
    with kinds_insert(3,4) [OF un, where s' = s1 and a = "nextAddr s"]
    have "friendKeys s1 = friendKeys s" "groupKeys s1 = insert k (groupKeys s)" by simp_all
    with ad have "admissible (friendKeys s1) (groupKeys s1) rest" by simp
    with r wf1 AddGroup show ?thesis by (intro step [of s1]) (simp_all add: applyOperation_def)
  next
    case (RemoveFriend k)
    with Cons.prems(2) have k: "k \<in> friendKeys s"
      and ad: "admissible (friendKeys s - {k}) (groupKeys s) rest" by simp_all
    from k cast_Some(1) obtain w where
      hv: "hashValue (contactWidgets s) k = Some w" and fw: "castFriendWidget (Some w) = Some w"
      unfolding friendKeys_def by blast
    from removeFriend_wellFormed [OF Cons.prems(1) hv fw] obtain s1 where
      r: "removeFriend s k = Some (Inr s1)" and wf1: "wellFormed s1"
      and cw: "contactWidgets s1 = hashRemove k (contactWidgets s)"
      by blast
    from kinds_remove(1) [OF cw hv fw] ad
    have "admissible (friendKeys s1) (groupKeys s1) rest" by simp
    with r wf1 RemoveFriend show ?thesis by (intro step [of s1]) (simp_all add: applyOperation_def)
  next
    case (RemoveGroup k)
    with Cons.prems(2) have k: "k \<in> groupKeys s"
      and ad: "admissible (friendKeys s) (groupKeys s - {k}) rest" by simp_all
    from k cast_Some(2) obtain w where
      hv: "hashValue (contactWidgets s) k = Some w" and gw: "castGroupWidget (Some w) = Some w"
      unfolding groupKeys_def by blast
    from removeGroup_wellFormed [OF Cons.prems(1) hv gw] obtain s1 where
      r: "removeGroup s k = Some (Inr s1)" and wf1: "wellFormed s1"
      and cw: "contactWidgets s1 = hashRemove k (contactWidgets s)"
      by blast
    from kinds_remove(2) [OF cw hv gw] ad
    have "admissible (friendKeys s1) (groupKeys s1) rest" by simp
    with r wf1 RemoveGroup show ?thesis by (intro step [of s1]) (simp_all add: applyOperation_def)
  qed
qed

lemma noReAdd_added: "noReAdd removed ops \<Longrightarrow> addedIds ops \<inter> removed = {}"
  by (induction removed ops rule: noReAdd.induct) auto

lemma noReAdd_managedAfter:
  "noReAdd removed ops \<Longrightarrow> managedAfter ids ops = (ids \<union> addedIds ops) - removedIds ops"
proof (induction removed ops arbitrary: ids rule: noReAdd.induct)
  case (1 removed)
  then show ?case by simp
next
  case (2 removed k status form pos rest)
  then show ?case by auto
next
  case (3 removed k form pos rest)
  then show ?case by auto
next
  case (4 removed k rest)
  from "4.prems" have n: "noReAdd (insert k removed) rest" by simp
  from noReAdd_added [OF n] have "k \<notin> addedIds rest" by auto
  with "4.IH" [OF n, of "ids - {k}"] show ?case by auto
next
  case (5 removed k rest)
  from "5.prems" have n: "noReAdd (insert k removed) rest" by simp
  from noReAdd_added [OF n] have "k \<notin> addedIds rest" by auto
  with "5.IH" [OF n, of "ids - {k}"] show ?case by auto
qed

lemma kinds_new: "friendKeys (newContentDialog g) = {}" "groupKeys (newContentDialog g) = {}"
  by (simp_all add: friendKeys_def groupKeys_def newContentDialog_def hashValue_def)

text \<open>
  Claim C7, amended. After a sequence of \<^verbatim>\<open>addFriend\<close>, \<^verbatim>\<open>addGroup\<close>, \<^verbatim>\<open>removeFriend\<close>
  and \<^verbatim>\<open>removeGroup\<close> on a new dialog, the set of managed ids is the set that the
  sequence leaves when it is read in order, an add putting its id in and a remove taking
  it out: the ids added and not removed since. This holds of every run that returns, and
  a run returns whenever each id is added only while it is not managed and removed only
  while it is managed, by the operation of its kind. The set is the set of added ids
  minus the set of removed ids for the sequences that add no id again after removing it.
\<close>

theorem managed_ids_after_sequence:
  "(runOperations (newContentDialog groupsOnTop) ops = Some (Inr s') \<longrightarrow>
      hashKeys (contactWidgets s') = managedAfter {} ops)
   \<and> (admissible {} {} ops \<longrightarrow>
        (\<exists>s. runOperations (newContentDialog groupsOnTop) ops = Some (Inr s)
             \<and> hashKeys (contactWidgets s) = managedAfter {} ops))
   \<and> (noReAdd {} ops \<longrightarrow> managedAfter {} ops = addedIds ops - removedIds ops)"
proof -
  have k0: "hashKeys (contactWidgets (newContentDialog groupsOnTop)) = {}"
    by (simp add: newContentDialog_def hashKeys_def)
  have A: "hashKeys (contactWidgets s) = managedAfter {} ops"
    if "runOperations (newContentDialog groupsOnTop) ops = Some (Inr s)" for s
    using runOperations_keys [OF that] k0 by simp
  have B: "\<exists>s. runOperations (newContentDialog groupsOnTop) ops = Some (Inr s)
             \<and> hashKeys (contactWidgets s) = managedAfter {} ops"
    if ad: "admissible {} {} ops"
  proof -
    from runOperations_admissible [OF wellFormed_new, of groupsOnTop ops] ad kinds_new
    obtain s where "runOperations (newContentDialog groupsOnTop) ops = Some (Inr s)" by auto
    with A show ?thesis by blast
  qed
  have C: "managedAfter {} ops = addedIds ops - removedIds ops" if "noReAdd {} ops"
    using noReAdd_managedAfter [OF that, of "{}"] by simp
  show ?thesis using A B C by blast
qed

text \<open>
  Claim C7, as stated: the managed ids are the set of added ids minus the set of removed
  ids. It fails when a contact comes back: after adding \<open>A\<close> and \<open>B\<close>, removing \<open>A\<close>
  and adding \<open>A\<close> again the dialog manages \<open>A\<close> and \<open>B\<close>, while the added ids minus the
  removed ids are \<open>B\<close> alone.
\<close>

theorem readded_contact_is_managed:
  "admissible {} {} readdExample
   \<and> managedIds (runOperations (newContentDialog False) readdExample) = Some {''A'', ''B''}
   \<and> addedIds readdExample - removedIds readdExample = {''B''}"
proof -
  have "managedIds (runOperations (newContentDialog False) readdExample) = Some {''A'', ''B''}"
    by code_simp
  moreover have "addedIds readdExample - removedIds readdExample = {''B''}"
    "admissible {} {} readdExample"
    by (auto simp: readdExample_def)
  ultimately show ?thesis by simp
qed

theorem managed_ids_after_sequence_witness:
  "admissible {} {} readdExample
   \<and> (\<exists>s. runOperations (newContentDialog False) readdExample = Some (Inr s)
           \<and> hashKeys (contactWidgets s) = {''A'', ''B''})
   \<and> noReAdd {} plainExample
   \<and> managedAfter {} plainExample = {''G''}
   \<and> addedIds plainExample - removedIds plainExample = {''G''}"
proof -
  have ad: "admissible {} {} readdExample" by (simp add: readdExample_def)
  have m: "managedAfter {} readdExample = {''A'', ''B''}" by (auto simp: readdExample_def)
  have n: "noReAdd {} plainExample" by (simp add: plainExample_def)
  have p: "addedIds plainExample - removedIds plainExample = {''G''}"
    by (auto simp: plainExample_def)
  from managed_ids_after_sequence [of False readdExample] ad m
  have 1: "\<exists>s. runOperations (newContentDialog False) readdExample = Some (Inr s)
           \<and> hashKeys (contactWidgets s) = {''A'', ''B''}" by simp
  from managed_ids_after_sequence [of False plainExample] n p
  have 2: "managedAfter {} plainExample = {''G''}" by simp
  from ad 1 n 2 p show ?thesis by simp
qed

subsection \<open>Focus, status updates and cycling keep the dialog well-formed\<close>

text \<open>
  Together with the lemmas on the constructor, on adding and on removing, these make
  well-formedness an invariant of every operation of the model, as long as no id is
  added while it is managed.
\<close>

lemma wellFormed_focusContact:
  assumes wf: "wellFormed s"
  shows "\<exists>s'. focusContact s k = Inr s' \<and> wellFormed s'"
proof (cases "hashValue (contactWidgets s) k")
  case None
  with wf show ?thesis by (simp add: focusContact_def focusCommon_def)
next
  case (Some w)
  note e = wellFormed_entry [OF wf Some]
  from wellFormedD(4) [OF wf e(1)] obtain form where
    f: "hashValue (contactChatForms s) (getContact w) = Some form" by auto
  have "wellFormed (s\<lparr>activeChatroomWidget := Some w, contentLayout := Some form\<rparr>)"
    by (rule wellFormed_frame [OF wf e(1)])
  with wf Some f show ?thesis
    by (simp add: focusContact_def focusCommon_def activate_def)
qed

lemma wellFormed_updateFriendStatus:
  assumes wf: "wellFormed s"
  shows "wellFormed (updateFriendStatus s k status pos)"
proof (cases "castFriendWidget (hashValue (contactWidgets s) k)")
  case None
  with wf show ?thesis
    by (simp add: updateFriendStatus_def addFriendWidget_def friendLayout_addFriendWidget_def)
next
  case (Some w')
  from cast_Some(1) [of "hashValue (contactWidgets s) k"] Some obtain w where
    hv: "hashValue (contactWidgets s) k = Some w" and fw: "castFriendWidget (Some w) = Some w"
    by auto
  note d = wellFormedD [OF wf]
  note e = wellFormed_entry [OF wf hv]
  have ng: "w \<notin> set (groupLayout s)" using d(8) [of w] cast_exclusive(1) [OF fw] by blast
  define on' where "on' = removeSortedWidget w (layoutOnline s)"
  define off' where "off' = removeSortedWidget w (layoutOffline s)"
  define s' where "s' = updateFriendStatus s k status pos"
  have s': "s' = (if status = Offline
                  then s\<lparr>layoutOffline := addSortedWidget pos w off', layoutOnline := on'\<rparr>
                  else s\<lparr>layoutOffline := off', layoutOnline := addSortedWidget pos w on'\<rparr>)"
    using hv fw
    by (simp add: s'_def updateFriendStatus_def addFriendWidget_def
        friendLayout_addFriendWidget_def Let_def on'_def off'_def)
  have r: "distinct (on' @ groupLayout s @ off')"
    "set (on' @ groupLayout s @ off') = set (allWidgets s) - {w}"
    using remove1_three [of "layoutOnline s" "groupLayout s" "layoutOffline s" w] d(2) ng
    by (simp_all add: on'_def off'_def removeSortedWidget_def allWidgets_def remove1_idem)
  have nw: "w \<notin> set on'" "w \<notin> set off'" using r(2) by auto
  have sub: "set on' \<subseteq> set (layoutOnline s)" "set off' \<subseteq> set (layoutOffline s)"
    by (simp_all add: on'_def off'_def removeSortedWidget_def set_remove1_subset)
  have all: "distinct (allWidgets s')" "set (allWidgets s') = set (allWidgets s)"
    using r nw ng e(1) by (auto simp: s' allWidgets_def)
  have fr: "x \<in> set (layoutOnline s') \<union> set (layoutOffline s') \<Longrightarrow>
            castFriendWidget (Some x) = Some x" for x
    using sub d(7) [of x] fw by (auto simp: s' split: if_splits)
  have same: "layouts s' = layouts s" "nextAddr s' = nextAddr s"
    "contactWidgets s' = contactWidgets s" "contactChatForms s' = contactChatForms s"
    "activeChatroomWidget s' = activeChatroomWidget s" "groupLayout s' = groupLayout s"
    by (simp_all add: s')
  have "wellFormed s'"
  proof (rule wellFormedI)
    show "layoutsOk s'" using d(1) same(1) by (simp add: layoutsOk_def)
    show "distinct (allWidgets s')" by (rule all(1))
    show "hashValue (contactWidgets s') (getContact x) = Some x" if "x \<in> set (allWidgets s')" for x
      using that d(3) [of x] unfolding all(2) same by simp
    show "hashValue (contactChatForms s') (getContact x) \<noteq> None" if "x \<in> set (allWidgets s')" for x
      using that d(4) [of x] unfolding all(2) same by simp
    show "addr x < nextAddr s'" if "x \<in> set (allWidgets s')" for x
      using that d(5) [of x] unfolding all(2) same by simp
    show "x \<in> set (allWidgets s') \<and> getContact x = k'"
      if "(k', x) \<in> set (contactWidgets s')" for k' x
      using that d(6) [of k' x] unfolding all(2) same by simp
    show "castFriendWidget (Some x) = Some x"
      if "x \<in> set (layoutOnline s') \<union> set (layoutOffline s')" for x
      using that by (rule fr)
    show "castGroupWidget (Some x) = Some x" if "x \<in> set (groupLayout s')" for x
      using that d(8) [of x] unfolding same by simp
    show "x \<in> set (allWidgets s')" if "activeChatroomWidget s' = Some x" for x
      using that d(9) [of x] unfolding all(2) same by simp
  qed
  then show ?thesis by (simp add: s'_def)
qed

lemma wellFormed_cycleContacts:
  assumes wf: "wellFormed s"
  shows "\<exists>s'. cycleContacts s f inv' = Some (Inr s') \<and> wellFormed s'"
proof (cases "activeChatroomWidget s")
  case None
  then have "cycleContacts s f inv' = Some (Inr s)"
    by (simp add: cycleContacts_def getCurrentLayout_def indexOfFriendWidget_def
        indexOfSortedWidget_def)
  with wf show ?thesis by simp
next
  case (Some w)
  note p = wellFormed_parts [OF wf]
  from cycleContacts_step [OF p(1) Some p(5) [OF Some] p(3), of f inv'] obtain t form where
    t: "t \<in> set (allWidgets s)"
    and r: "cycleContacts s f inv'
            = Some (Inr (if t = w then s
                         else s\<lparr>activeChatroomWidget := Some t, contentLayout := Some form\<rparr>))"
    by blast
  from wellFormed_frame [OF wf t] wf r show ?thesis by auto
qed

end
